theory Spec2Isabelle
  imports Main "HOL-Library.Sublist"
begin

section \<open>JavaScript values\<close>

text \<open>
  The route objects of \<^verbatim>\<open>server.js\<close> are untyped JSON: the control plane copies
  \<^verbatim>\<open>data.name\<close>, \<^verbatim>\<open>data.protocol\<close> and the hosts into a route as they arrive.
  JSON numbers are restricted to integers here; \<open>JNaN\<close> is the value \<^verbatim>\<open>parseInt\<close>
  yields on a string without digits.
\<close>

datatype jsval =
    JUndefined
  | JNull
  | JBool bool
  | JNum int
  | JNaN
  | JStr string
  | JArr "jsval list"
  | JObj "(string \<times> jsval) list"

text \<open>Truthiness, as \<^verbatim>\<open>!x\<close>, \<^verbatim>\<open>x || y\<close> and \<^verbatim>\<open>if (x)\<close> read a value.\<close>

fun truthy :: "jsval \<Rightarrow> bool" where
  "truthy JUndefined = False"
| "truthy JNull = False"
| "truthy (JBool b) = b"
| "truthy (JNum n) = (n \<noteq> 0)"
| "truthy JNaN = False"
| "truthy (JStr s) = (s \<noteq> [])"
| "truthy (JArr xs) = True"
| "truthy (JObj kvs) = True"

text \<open>
  Strict equality \<^verbatim>\<open>===\<close>: \<^verbatim>\<open>NaN\<close> equals nothing, and an array or object equals
  only itself by reference. The values the program compares belong to two different
  route objects, or to a route object and the path of the URL, so two objects compared
  are never the same reference.
\<close>

fun strictEq :: "jsval \<Rightarrow> jsval \<Rightarrow> bool" where
  "strictEq JNaN b = False"
| "strictEq (JArr xs) b = False"
| "strictEq (JObj kvs) b = False"
| "strictEq a b = (a = b)"

datatype exn = TypeError | NotRunning

text \<open>
  Property access \<^verbatim>\<open>v.k\<close>, for the keys the program reads (\<^verbatim>\<open>name\<close>, \<^verbatim>\<open>protocol\<close>,
  \<^verbatim>\<open>listen\<close>, \<^verbatim>\<open>forward\<close>, \<^verbatim>\<open>host\<close>, \<^verbatim>\<open>port\<close>, \<^verbatim>\<open>enabled\<close>): it throws on
  \<^verbatim>\<open>undefined\<close> and \<^verbatim>\<open>null\<close>, reads the last binding of a parsed object, and is
  \<^verbatim>\<open>undefined\<close> on every other value.
\<close>

fun getProp :: "jsval \<Rightarrow> string \<Rightarrow> exn + jsval" where
  "getProp JUndefined k = Inl TypeError"
| "getProp JNull k = Inl TypeError"
| "getProp (JObj kvs) k = Inr (case map_of (rev kvs) k of None \<Rightarrow> JUndefined | Some v \<Rightarrow> v)"
| "getProp v k = Inr JUndefined"

definition propOf :: "jsval \<Rightarrow> string \<Rightarrow> jsval" where
  "propOf v k = (case getProp v k of Inl e \<Rightarrow> JUndefined | Inr x \<Rightarrow> x)"

text \<open>
  The conversion to a string that a template literal \<^verbatim>\<open>`${v}`\<close> and \<^verbatim>\<open>parseInt(v)\<close>
  apply to a value throws a TypeError when the value has no primitive form. For a value
  that \<^verbatim>\<open>JSON.parse\<close> built, that is an object with a key \<^verbatim>\<open>toString\<close> of its own
  (its value is never a function, and \<^verbatim>\<open>valueOf\<close> then gives back the object, or is
  not a function either), and an array with such an element (\<^verbatim>\<open>join\<close> converts the
  elements).
\<close>

fun toStringThrows :: "jsval \<Rightarrow> bool" where
  "toStringThrows (JObj kvs) = (map_of kvs ''toString'' \<noteq> None)"
| "toStringThrows (JArr xs) = list_ex toStringThrows xs"
| "toStringThrows v = False"

section \<open>Routes, listeners and the state of the process\<close>

record endpoint =
  host :: jsval
  port :: jsval

record named =
  name :: jsval
  protocol :: jsval
  listen :: endpoint
  forward :: endpoint

text \<open>A route of \<^verbatim>\<open>config.routes\<close>.\<close>

record route = named +
  enabled :: bool

text \<open>
  What the \<^verbatim>\<open>server\<close> field of an entry of \<^verbatim>\<open>activeServers\<close> can refer to: a
  \<^verbatim>\<open>net.Server\<close>, a \<^verbatim>\<open>dgram.Socket\<close>, or the object literal
  \<^verbatim>\<open>{ server: udpServer, clients }\<close> that \<^verbatim>\<open>startUdpProxy\<close> returns (named here by
  the handle of the socket it wraps). Only the first two have a \<^verbatim>\<open>close\<close> method.
\<close>

datatype jsref = NetServer nat | DgramSocket nat | Wrapper nat

text \<open>An entry of \<^verbatim>\<open>activeServers\<close>.\<close>

record active = named +
  server :: jsref

type_synonym rinfo = "string \<times> nat"

text \<open>A value of the \<^verbatim>\<open>clients\<close> map of a UDP listener: \<^verbatim>\<open>{ socket, timeout }\<close>.\<close>

record session =
  socket :: nat
  timeout :: nat

text \<open>
  The callback of a pending timer. The timer set when a session is created closes the
  socket it captured; the one set on every later datagram closes the socket it finds in
  the map. Both are for the \<^verbatim>\<open>clients\<close> map of the listener with the given handle.
\<close>

datatype timer = InitialTimer nat nat rinfo | ResetTimer nat rinfo

text \<open>
  An open socket of the process, with what its handlers captured: the listen and the
  forward endpoint of the route it was started for.
\<close>

datatype sockinfo = TcpListener endpoint endpoint | UdpListener endpoint endpoint | UdpClient

datatype level = LInfo | LWarn | LError

record state =
  routes :: "route list"
  activeServers :: "active list"
  nextId :: nat
  sockets :: "(nat \<times> sockinfo) list"
  clients :: "(nat \<times> (rinfo \<times> session) list) list"
  timers :: "(nat \<times> timer) list"
  sent :: "(nat \<times> endpoint \<times> string) list"
  saved :: "route list list"
  logs :: "(level \<times> string) list"

text \<open>
  What the program cannot decide by itself: whether \<^verbatim>\<open>listen\<close>/\<^verbatim>\<open>bind\<close> throws
  at once for an endpoint (a port out of range), whether \<^verbatim>\<open>dgram.createSocket\<close>
  throws, and whether \<^verbatim>\<open>fs.writeFileSync\<close> throws.
\<close>

record runtime =
  listenThrows :: "endpoint \<Rightarrow> bool"
  createSocketThrows :: bool
  writeThrows :: bool

text \<open>
  \<^verbatim>\<open>log(level, message)\<close>: the calls are recorded, with the constant part of the
  message; the filter by \<^verbatim>\<open>config.logging\<close> is not modelled.
\<close>

definition log :: "level \<Rightarrow> string \<Rightarrow> state \<Rightarrow> state" where
  "log lvl m s = s\<lparr>logs := logs s @ [(lvl, m)]\<rparr>"

definition saveConfig :: "runtime \<Rightarrow> state \<Rightarrow> state" where
  "saveConfig rt s =
     (if writeThrows rt then log LError ''Failed to save config'' s
      else log LInfo ''Config saved'' (s\<lparr>saved := saved s @ [routes s]\<rparr>))"

section \<open>Sockets and timers\<close>

definition isOpen :: "nat \<Rightarrow> state \<Rightarrow> bool" where
  "isOpen h s = (map_of (sockets s) h \<noteq> None)"

definition dropSocket :: "nat \<Rightarrow> state \<Rightarrow> state" where
  "dropSocket h s = s\<lparr>sockets := filter (\<lambda>p. fst p \<noteq> h) (sockets s)\<rparr>"

text \<open>\<^verbatim>\<open>net.Server.close()\<close> never throws.\<close>

definition netClose :: "nat \<Rightarrow> state \<Rightarrow> exn option \<times> state" where
  "netClose h s = (None, dropSocket h s)"

text \<open>\<^verbatim>\<open>dgram.Socket.close()\<close> throws on a socket that is not running.\<close>

definition dgramClose :: "nat \<Rightarrow> state \<Rightarrow> exn option \<times> state" where
  "dgramClose h s = (if isOpen h s then (None, dropSocket h s) else (Some NotRunning, s))"

definition dgramSend :: "nat \<Rightarrow> endpoint \<Rightarrow> string \<Rightarrow> state \<Rightarrow> exn option \<times> state" where
  "dgramSend h dest payload s =
     (if isOpen h s then (None, s\<lparr>sent := sent s @ [(h, dest, payload)]\<rparr>)
      else (Some NotRunning, s))"

definition clearTimeout :: "nat \<Rightarrow> state \<Rightarrow> state" where
  "clearTimeout t s = s\<lparr>timers := filter (\<lambda>p. fst p \<noteq> t) (timers s)\<rparr>"

definition clientsOf :: "state \<Rightarrow> nat \<Rightarrow> (rinfo \<times> session) list" where
  "clientsOf s h = (case map_of (clients s) h of None \<Rightarrow> [] | Some m \<Rightarrow> m)"

definition setClients :: "nat \<Rightarrow> (rinfo \<times> session) list \<Rightarrow> state \<Rightarrow> state" where
  "setClients h m s = s\<lparr>clients := (h, m) # filter (\<lambda>p. fst p \<noteq> h) (clients s)\<rparr>"

text \<open>\<^verbatim>\<open>x.close()\<close> on whatever the \<^verbatim>\<open>server\<close> field holds.\<close>

fun callClose :: "jsref \<Rightarrow> state \<Rightarrow> exn option \<times> state" where
  "callClose (NetServer h) s = netClose h s"
| "callClose (DgramSocket h) s = dgramClose h s"
| "callClose (Wrapper h) s = (Some TypeError, s)"

text \<open>\<^verbatim>\<open>x.clients\<close> on whatever the \<^verbatim>\<open>server\<close> field holds.\<close>

fun clientsProp :: "jsref \<Rightarrow> state \<Rightarrow> (rinfo \<times> session) list option" where
  "clientsProp (Wrapper h) s = Some (clientsOf s h)"
| "clientsProp r s = None"

section \<open>Starting listeners\<close>

text \<open>
  The condition of the scan of \<^verbatim>\<open>activeServers\<close> that opens \<^verbatim>\<open>startTcpProxy\<close> and
  \<^verbatim>\<open>startUdpProxy\<close>, for the protocol \<open>p\<close> the function is for.
\<close>

definition sameListen :: "jsval \<Rightarrow> active \<Rightarrow> route \<Rightarrow> bool" where
  "sameListen p e r =
     (strictEq (protocol e) p \<and>
      strictEq (port (listen e)) (port (listen r)) \<and>
      strictEq (host (listen e)) (host (listen r)))"

definition collides :: "jsval \<Rightarrow> active list \<Rightarrow> route \<Rightarrow> bool" where
  "collides p act r = list_ex (\<lambda>e. sameListen p e r) act"

text \<open>
  \<^verbatim>\<open>startTcpProxy\<close>. The messages of the warning and of the \<^verbatim>\<open>catch\<close> interpolate
  \<^verbatim>\<open>route.name\<close>: when its conversion to a string throws, the function throws the
  TypeError instead of logging and returning \<^verbatim>\<open>null\<close>. The result is \<open>Inl\<close> an
  exception thrown, \<open>Inr None\<close> for \<^verbatim>\<open>null\<close>, \<open>Inr (Some srv)\<close> for the server.
\<close>

definition startTcpProxy :: "runtime \<Rightarrow> route \<Rightarrow> state \<Rightarrow> (exn + jsref option) \<times> state" where
  "startTcpProxy rt r s =
     (if collides (JStr ''tcp'') (activeServers s) r
      then (if toStringThrows (name r) then (Inl TypeError, s)
            else (Inr None, log LWarn ''TCP proxy cannot start: Address already in use'' s))
      else
        let h = nextId s; s1 = s\<lparr>nextId := Suc h\<rparr> in
        if listenThrows rt (listen r)
        then (if toStringThrows (name r) then (Inl TypeError, s1)
              else (Inr None, log LError ''Failed to start TCP proxy'' s1))
        else (Inr (Some (NetServer h)),
              s1\<lparr>sockets := sockets s1 @ [(h, TcpListener (listen r) (forward r))]\<rparr>))"

text \<open>
  \<^verbatim>\<open>startUdpProxy\<close>, with the same interpolation in the warning and in the two
  \<^verbatim>\<open>catch\<close> blocks (a throw in the inner one is caught by the outer one, whose
  message throws again).
\<close>

definition startUdpProxy :: "runtime \<Rightarrow> route \<Rightarrow> state \<Rightarrow> (exn + jsref option) \<times> state" where
  "startUdpProxy rt r s =
     (if collides (JStr ''udp'') (activeServers s) r
      then (if toStringThrows (name r) then (Inl TypeError, s)
            else (Inr None, log LWarn ''UDP proxy cannot start: Address already in use'' s))
      else if createSocketThrows rt
      then (if toStringThrows (name r) then (Inl TypeError, s)
            else (Inr None, log LError ''Failed to start UDP proxy'' s))
      else
        let h = nextId s; s1 = s\<lparr>nextId := Suc h, clients := clients s @ [(h, [])]\<rparr> in
        if listenThrows rt (listen r)
        then (if toStringThrows (name r) then (Inl TypeError, s1)
              else (Inr None, log LError ''Failed to bind UDP server'' s1))
        else (Inr (Some (Wrapper h)),
              s1\<lparr>sockets := sockets s1 @ [(h, UdpListener (listen r) (forward r))]\<rparr>))"

text \<open>
  The block that \<^verbatim>\<open>startAllProxies\<close>, \<^verbatim>\<open>addRoute\<close>, \<^verbatim>\<open>updateRoute\<close> and
  \<^verbatim>\<open>toggleRoute\<close> each repeat: \<^verbatim>\<open>server = null\<close>, then the start by protocol
  (\<open>startRoute\<close>), then the push of the entry when \<^verbatim>\<open>server\<close> is not null
  (\<open>pushActive\<close>, under the name the caller gives). An exception of the start leaves
  the block; \<open>startAndPush\<close> returns it, or \<open>None\<close> when the block ran to its end.
\<close>

definition startRoute :: "runtime \<Rightarrow> route \<Rightarrow> state \<Rightarrow> (exn + jsref option) \<times> state" where
  "startRoute rt r s =
     (if strictEq (protocol r) (JStr ''tcp'') then startTcpProxy rt r s
      else if strictEq (protocol r) (JStr ''udp'') then startUdpProxy rt r s
      else (Inr None, s))"

definition entryFor :: "jsval \<Rightarrow> route \<Rightarrow> jsref \<Rightarrow> active" where
  "entryFor n r srv =
     \<lparr>name = n, protocol = protocol r, listen = listen r, forward = forward r, server = srv\<rparr>"

definition pushActive :: "jsval \<Rightarrow> route \<Rightarrow> (exn + jsref option) \<times> state \<Rightarrow> exn option \<times> state" where
  "pushActive n r res =
     (case res of
        (Inl x, s) \<Rightarrow> (Some x, s)
      | (Inr None, s) \<Rightarrow> (None, s)
      | (Inr (Some srv), s) \<Rightarrow>
          (None, s\<lparr>activeServers := activeServers s @ [entryFor n r srv]\<rparr>))"

definition startAndPush :: "runtime \<Rightarrow> jsval \<Rightarrow> route \<Rightarrow> state \<Rightarrow> exn option \<times> state" where
  "startAndPush rt n r s = pushActive n r (startRoute rt r s)"

section \<open>Stopping listeners, and the pass that restarts them\<close>

text \<open>The loop over \<^verbatim>\<open>server.server.clients\<close> in \<^verbatim>\<open>stopAllProxies\<close>.\<close>

fun closeClients :: "(rinfo \<times> session) list \<Rightarrow> state \<Rightarrow> exn option \<times> state" where
  "closeClients [] s = (None, s)"
| "closeClients (kc # cs) s =
     (case dgramClose (socket (snd kc)) (clearTimeout (timeout (snd kc)) s) of
        (Some e, s') \<Rightarrow> (Some e, s')
      | (None, s') \<Rightarrow> closeClients cs s')"

text \<open>The body of the \<^verbatim>\<open>try\<close> of \<^verbatim>\<open>stopAllProxies\<close>, up to the first throw.\<close>

definition stopBody :: "active \<Rightarrow> state \<Rightarrow> exn option \<times> state" where
  "stopBody e s =
     (if strictEq (protocol e) (JStr ''tcp'') then callClose (server e) s
      else if strictEq (protocol e) (JStr ''udp'') then
        (case (case clientsProp (server e) s of
                 None \<Rightarrow> (None, s)
               | Some cs \<Rightarrow> closeClients cs s) of
           (Some x, s') \<Rightarrow> (Some x, s')
         | (None, s') \<Rightarrow> callClose (server e) s')
      else (None, s))"

text \<open>
  The two messages of a turn of the loop of \<^verbatim>\<open>stopAllProxies\<close> are built from
  \<^verbatim>\<open>server.protocol.toUpperCase()\<close> and \<^verbatim>\<open>server.name\<close>: building them throws
  when the protocol of the entry is not a string or its name has no conversion to one.
\<close>

fun stopMessageThrows :: "active \<Rightarrow> bool" where
  "stopMessageThrows e =
     (case protocol e of JStr p \<Rightarrow> toStringThrows (name e) | _ \<Rightarrow> True)"

text \<open>
  One turn of the loop of \<^verbatim>\<open>stopAllProxies\<close>: the body of the \<^verbatim>\<open>try\<close>, then the
  message of the \<^verbatim>\<open>try\<close> or of the \<^verbatim>\<open>catch\<close>. A throw of the message of the
  \<^verbatim>\<open>try\<close> is caught and the message of the \<^verbatim>\<open>catch\<close> throws again, out of the
  function.
\<close>

definition stopOne :: "active \<Rightarrow> state \<Rightarrow> exn option \<times> state" where
  "stopOne e s =
     (case stopBody e s of
        (x, s') \<Rightarrow>
          if stopMessageThrows e then (Some TypeError, s')
          else (case x of
                  Some y \<Rightarrow> (None, log LError ''Failed to stop proxy'' s')
                | None \<Rightarrow> (None, log LInfo ''Stopped proxy'' s')))"

fun stopLoop :: "active list \<Rightarrow> state \<Rightarrow> exn option \<times> state" where
  "stopLoop [] s = (None, s)"
| "stopLoop (e # es) s =
     (case stopOne e s of
        (Some x, s') \<Rightarrow> (Some x, s')
      | (None, s') \<Rightarrow> stopLoop es s')"

text \<open>
  \<^verbatim>\<open>stopAllProxies\<close>: the exception that left it, if one did, and the state reached;
  \<^verbatim>\<open>activeServers = []\<close> is after the loop.
\<close>

definition stopAllProxies :: "state \<Rightarrow> exn option \<times> state" where
  "stopAllProxies s =
     (case stopLoop (activeServers s) s of
        (Some x, s') \<Rightarrow> (Some x, s')
      | (None, s') \<Rightarrow> (None, s'\<lparr>activeServers := []\<rparr>))"

text \<open>
  The loop of \<^verbatim>\<open>startAllProxies\<close> over \<^verbatim>\<open>config.routes\<close>; an exception of a start
  ends it.
\<close>

fun startLoop :: "runtime \<Rightarrow> route list \<Rightarrow> state \<Rightarrow> exn option \<times> state" where
  "startLoop rt [] s = (None, s)"
| "startLoop rt (r # rs) s =
     (if enabled r
      then (case startAndPush rt (name r) r s of
              (Some x, s') \<Rightarrow> (Some x, s')
            | (None, s') \<Rightarrow> startLoop rt rs s')
      else startLoop rt rs s)"

definition startAllProxies :: "runtime \<Rightarrow> state \<Rightarrow> exn option \<times> state" where
  "startAllProxies rt s =
     (case stopAllProxies s of
        (Some x, s1) \<Rightarrow> (Some x, s1)
      | (None, s1) \<Rightarrow>
          (case startLoop rt (routes s1) s1 of
             (Some x, s2) \<Rightarrow> (Some x, s2)
           | (None, s2) \<Rightarrow> (None, log LInfo ''Started proxies'' s2)))"

text \<open>
  The \<^verbatim>\<open>try\<close> that \<^verbatim>\<open>removeRoute\<close>, \<^verbatim>\<open>updateRoute\<close> and \<^verbatim>\<open>toggleRoute\<close> run on
  the entry \<^verbatim>\<open>activeServer\<close> they found: the close by protocol, then the filter of
  \<^verbatim>\<open>activeServers\<close> by name, which a throw of the close skips.
\<close>

definition stopServerFor :: "active \<Rightarrow> jsval \<Rightarrow> state \<Rightarrow> state" where
  "stopServerFor a routeName s =
     (case (if strictEq (protocol a) (JStr ''tcp'') then callClose (server a) s
            else if strictEq (protocol a) (JStr ''udp'') then callClose (server a) s
            else (None, s)) of
        (Some x, s') \<Rightarrow> log LError ''Failed to stop server for route'' s'
      | (None, s') \<Rightarrow>
          s'\<lparr>activeServers := filter (\<lambda>e. \<not> strictEq (name e) routeName) (activeServers s')\<rparr>)"

section \<open>The route manager\<close>

datatype msg =
    AlreadyExists jsval
  | Added jsval
  | NotFound jsval
  | Removed jsval
  | Updated jsval
  | RouteEnabled jsval
  | RouteDisabled jsval
  | Unchanged jsval
  | MissingFields
  | InternalError

record result =
  success :: bool
  message :: msg

text \<open>\<^verbatim>\<open>Array.prototype.findIndex\<close>, with \<open>None\<close> for \<^verbatim>\<open>-1\<close>.\<close>

fun findIndex :: "('a \<Rightarrow> bool) \<Rightarrow> 'a list \<Rightarrow> nat option" where
  "findIndex P [] = None"
| "findIndex P (x # xs) =
     (if P x then Some 0 else (case findIndex P xs of None \<Rightarrow> None | Some i \<Rightarrow> Some (Suc i)))"

definition hasName :: "jsval \<Rightarrow> 'a named_scheme \<Rightarrow> bool" where
  "hasName n x = strictEq (name x) n"

text \<open>
  The \<^verbatim>\<open>return\<close> of a result whose message interpolates the value \<open>n\<close>: the
  conversion of \<open>n\<close> to a string can throw.
\<close>

definition returnMsg :: "jsval \<Rightarrow> result \<Rightarrow> exn + result" where
  "returnMsg n res = (if toStringThrows n then Inl TypeError else Inr res)"

text \<open>
  \<^verbatim>\<open>addRoute\<close>: \<open>Inl\<close> an exception that left the function (of the start, or of the
  message of the result, after the route was pushed and saved), \<open>Inr\<close> the result it
  returned.
\<close>

definition addRoute :: "runtime \<Rightarrow> route \<Rightarrow> state \<Rightarrow> (exn + result) \<times> state" where
  "addRoute rt routeConfig s =
     (case List.find (hasName (name routeConfig)) (routes s) of
        Some existingRoute \<Rightarrow>
          (returnMsg (name routeConfig)
             \<lparr>success = False, message = AlreadyExists (name routeConfig)\<rparr>, s)
      | None \<Rightarrow>
          let s1 = saveConfig rt (s\<lparr>routes := routes s @ [routeConfig]\<rparr>) in
          (case (if enabled routeConfig
                 then startAndPush rt (name routeConfig) routeConfig s1 else (None, s1)) of
             (Some x, s2) \<Rightarrow> (Inl x, s2)
           | (None, s2) \<Rightarrow>
               (returnMsg (name routeConfig)
                  \<lparr>success = True, message = Added (name routeConfig)\<rparr>, s2)))"

text \<open>
  \<^verbatim>\<open>removeRoute\<close>, \<^verbatim>\<open>updateRoute\<close> and \<^verbatim>\<open>toggleRoute\<close> get \<^verbatim>\<open>routeName\<close>
  from the path of the URL, a string, and interpolate that in their messages.
\<close>

definition removeRoute :: "runtime \<Rightarrow> jsval \<Rightarrow> state \<Rightarrow> result \<times> state" where
  "removeRoute rt routeName s =
     (case findIndex (hasName routeName) (routes s) of
        None \<Rightarrow> (\<lparr>success = False, message = NotFound routeName\<rparr>, s)
      | Some routeIndex \<Rightarrow>
          let s1 = (case List.find (hasName routeName) (activeServers s) of
                      None \<Rightarrow> s
                    | Some activeServer \<Rightarrow> stopServerFor activeServer routeName s);
              s2 = saveConfig rt
                     (s1\<lparr>routes := take routeIndex (routes s1) @ drop (Suc routeIndex) (routes s1)\<rparr>)
          in (\<lparr>success = True, message = Removed routeName\<rparr>, s2))"

text \<open>
  \<^verbatim>\<open>routeConfig\<close> is the replacement definition; the table gets
  \<^verbatim>\<open>{ ...routeConfig, name: routeName }\<close>, the start is on \<^verbatim>\<open>routeConfig\<close> itself,
  and an exception of the start leaves the function (\<open>Inl\<close>).
\<close>

definition updateRoute :: "runtime \<Rightarrow> jsval \<Rightarrow> route \<Rightarrow> state \<Rightarrow> (exn + result) \<times> state" where
  "updateRoute rt routeName routeConfig s =
     (case findIndex (hasName routeName) (routes s) of
        None \<Rightarrow> (Inr \<lparr>success = False, message = NotFound routeName\<rparr>, s)
      | Some routeIndex \<Rightarrow>
          let s1 = saveConfig rt
                     (s\<lparr>routes := (routes s)[routeIndex := routeConfig\<lparr>name := routeName\<rparr>]\<rparr>);
              s2 = (case List.find (hasName routeName) (activeServers s1) of
                      None \<Rightarrow> s1
                    | Some activeServer \<Rightarrow> stopServerFor activeServer routeName s1)
          in (case (if enabled routeConfig
                    then startAndPush rt routeName routeConfig s2 else (None, s2)) of
                (Some x, s3) \<Rightarrow> (Inl x, s3)
              | (None, s3) \<Rightarrow> (Inr \<lparr>success = True, message = Updated routeName\<rparr>, s3)))"

definition toggleRoute :: "runtime \<Rightarrow> jsval \<Rightarrow> state \<Rightarrow> (exn + result) \<times> state" where
  "toggleRoute rt routeName s =
     (case findIndex (hasName routeName) (routes s) of
        None \<Rightarrow> (Inr \<lparr>success = False, message = NotFound routeName\<rparr>, s)
      | Some routeIndex \<Rightarrow>
          let old = routes s ! routeIndex;
              s1 = saveConfig rt
                     (s\<lparr>routes := (routes s)[routeIndex := old\<lparr>enabled := \<not> enabled old\<rparr>]\<rparr>);
              isEnabled = enabled (routes s1 ! routeIndex)
          in (case List.find (hasName routeName) (activeServers s1) of
                None \<Rightarrow>
                  if isEnabled
                  then (case startAndPush rt routeName (routes s1 ! routeIndex) s1 of
                          (Some x, s2) \<Rightarrow> (Inl x, s2)
                        | (None, s2) \<Rightarrow>
                            (Inr \<lparr>success = True, message = RouteEnabled routeName\<rparr>, s2))
                  else (Inr \<lparr>success = True, message = Unchanged routeName\<rparr>, s1)
              | Some activeServer \<Rightarrow>
                  if isEnabled
                  then (Inr \<lparr>success = True, message = Unchanged routeName\<rparr>, s1)
                  else (Inr \<lparr>success = True, message = RouteDisabled routeName\<rparr>,
                        stopServerFor activeServer routeName s1)))"

section \<open>Events of a running listener\<close>

text \<open>
  The handlers below are those of a listener whose route has a name with a conversion to
  a string; their log calls are recorded by the constant part of the message. (For a
  route of another name the first log call of a handler throws; such a UDP listener
  never gets a session, the message that announces a new client being built before the
  session is created.)
\<close>

text \<open>The \<^verbatim>\<open>'error'\<close> handler of the server that \<^verbatim>\<open>startTcpProxy\<close> created.\<close>

definition tcpOnError :: "nat \<Rightarrow> state \<Rightarrow> state" where
  "tcpOnError h s =
     (let s1 = log LError ''TCP server error'' s
      in s1\<lparr>activeServers := filter (\<lambda>e. server e \<noteq> NetServer h) (activeServers s1)\<rparr>)"

text \<open>The \<^verbatim>\<open>'error'\<close> handler of the socket that \<^verbatim>\<open>startUdpProxy\<close> created.\<close>

definition udpOnError :: "nat \<Rightarrow> state \<Rightarrow> state" where
  "udpOnError h s =
     (let s1 = log LError ''UDP server error'' s;
          s2 = (case dgramClose h s1 of
                  (Some x, s') \<Rightarrow> log LError ''Error closing UDP server'' s'
                | (None, s') \<Rightarrow> s')
      in s2\<lparr>activeServers := filter (\<lambda>e. server e \<noteq> DgramSocket h) (activeServers s2)\<rparr>)"

definition setSession :: "nat \<Rightarrow> rinfo \<Rightarrow> session \<Rightarrow> state \<Rightarrow> state" where
  "setSession h k c s =
     setClients h (map (\<lambda>p. if fst p = k then (k, c) else p) (clientsOf s h)) s"

definition deleteSession :: "nat \<Rightarrow> rinfo \<Rightarrow> state \<Rightarrow> state" where
  "deleteSession h k s = setClients h (filter (\<lambda>p. fst p \<noteq> k) (clientsOf s h)) s"

text \<open>
  The first half of the \<^verbatim>\<open>'message'\<close> handler of a UDP listener (handle \<open>h\<close>): the
  creation of the session when the map has none for the key. The boolean says that
  the handler returned from the \<^verbatim>\<open>catch\<close>.
\<close>

definition createSession :: "runtime \<Rightarrow> nat \<Rightarrow> rinfo \<Rightarrow> state \<Rightarrow> bool \<times> state" where
  "createSession rt h k s =
     (if map_of (clientsOf s h) k = None then
        let s1 = log LInfo ''UDP client connected'' s in
        if createSocketThrows rt
        then (True, log LError ''Failed to create UDP client socket'' s1)
        else
          let c = nextId s1; t = Suc c;
              s2 = s1\<lparr>nextId := Suc t,
                      sockets := sockets s1 @ [(c, UdpClient)],
                      timers := timers s1 @ [(t, InitialTimer h c k)]\<rparr>
          in (False, setClients h (clientsOf s2 h @ [(k, \<lparr>socket = c, timeout = t\<rparr>)]) s2)
      else (False, s))"

text \<open>
  The second half: the timer of the session is cleared and set again, and the payload is
  sent to the forward endpoint \<open>fwd\<close> of the route through the socket of the session.
\<close>

definition resetAndForward :: "nat \<Rightarrow> endpoint \<Rightarrow> rinfo \<Rightarrow> string \<Rightarrow> state \<Rightarrow> state" where
  "resetAndForward h fwd k payload s =
     (case map_of (clientsOf s h) k of
        None \<Rightarrow> s
      | Some c \<Rightarrow>
          let s1 = clearTimeout (timeout c) s;
              t = nextId s1;
              s2 = s1\<lparr>nextId := Suc t, timers := timers s1 @ [(t, ResetTimer h k)]\<rparr>;
              s3 = setSession h k (c\<lparr>timeout := t\<rparr>) s2
          in (case dgramSend (socket c) fwd payload s3 of
                (Some x, s') \<Rightarrow> log LError ''UDP send error'' s'
              | (None, s') \<Rightarrow> s'))"

definition udpOnMessage :: "runtime \<Rightarrow> nat \<Rightarrow> endpoint \<Rightarrow> rinfo \<Rightarrow> string \<Rightarrow> state \<Rightarrow> state" where
  "udpOnMessage rt h fwd k payload s =
     (case createSession rt h k s of
        (True, s') \<Rightarrow> s'
      | (False, s') \<Rightarrow> resetAndForward h fwd k payload s')"

text \<open>
  The \<^verbatim>\<open>'message'\<close> handler of the socket of a session: the reply of the backend goes
  to the client \<open>k\<close> through the listening socket \<open>h\<close>. The send is outside any
  \<^verbatim>\<open>try\<close>.
\<close>

definition clientOnMessage :: "nat \<Rightarrow> rinfo \<Rightarrow> string \<Rightarrow> state \<Rightarrow> exn option \<times> state" where
  "clientOnMessage h k payload s =
     dgramSend h \<lparr>host = JStr (fst k), port = JNum (int (snd k))\<rparr> payload s"

text \<open>The \<^verbatim>\<open>'error'\<close> handler of the socket \<open>c\<close> of a session.\<close>

definition clientOnError :: "nat \<Rightarrow> nat \<Rightarrow> rinfo \<Rightarrow> state \<Rightarrow> exn option \<times> state" where
  "clientOnError h c k s =
     (case dgramClose c (log LError ''UDP client socket error'' s) of
        (Some x, s') \<Rightarrow> (Some x, s')
      | (None, s') \<Rightarrow> (None, deleteSession h k s'))"

text \<open>The callback of a timer, when it fires.\<close>

fun timerBody :: "timer \<Rightarrow> state \<Rightarrow> exn option \<times> state" where
  "timerBody (InitialTimer h c k) s =
     (if map_of (clientsOf s h) k = None then (None, s)
      else (case dgramClose c (log LInfo ''UDP client timed out'' s) of
              (Some x, s') \<Rightarrow> (Some x, s')
            | (None, s') \<Rightarrow> (None, deleteSession h k s')))"
| "timerBody (ResetTimer h k) s =
     (case map_of (clientsOf s h) k of
        None \<Rightarrow> (None, s)
      | Some c \<Rightarrow>
          (case dgramClose (socket c) (log LInfo ''UDP client timed out'' s) of
             (Some x, s') \<Rightarrow> (Some x, s')
           | (None, s') \<Rightarrow> (None, deleteSession h k s')))"

text \<open>The expiry of the pending timer \<open>t\<close>; a timer that was cleared does not fire.\<close>

definition fireTimer :: "nat \<Rightarrow> state \<Rightarrow> exn option \<times> state" where
  "fireTimer t s =
     (case map_of (timers s) t of
        None \<Rightarrow> (None, s)
      | Some cb \<Rightarrow> timerBody cb (clearTimeout t s))"

section \<open>The control plane\<close>

record response =
  statusCode :: nat
  body :: result

text \<open>
  \<^verbatim>\<open>parseInt(v)\<close> converts \<open>v\<close> to a string first, which can throw; what it reads
  from the string is the built-in function, a parameter here.
\<close>

definition parseIntJs :: "(jsval \<Rightarrow> jsval) \<Rightarrow> jsval \<Rightarrow> exn + jsval" where
  "parseIntJs parseInt v = (if toStringThrows v then Inl TypeError else Inr (parseInt v))"

text \<open>
  The object literal that \<^verbatim>\<open>handleApiRequest\<close> builds from the parsed body
  \<^verbatim>\<open>data\<close> for \<^verbatim>\<open>addRoute\<close> (with \<^verbatim>\<open>name: data.name\<close>) and for
  \<^verbatim>\<open>updateRoute\<close> (with no \<^verbatim>\<open>name\<close>), or the exception of one of the two
  \<^verbatim>\<open>parseInt\<close> calls.
\<close>

definition routeOfRequest :: "(jsval \<Rightarrow> jsval) \<Rightarrow> jsval \<Rightarrow> jsval \<Rightarrow> exn + route" where
  "routeOfRequest parseInt nm data =
     (case parseIntJs parseInt (propOf (propOf data ''listen'') ''port'') of
        Inl x \<Rightarrow> Inl x
      | Inr lp \<Rightarrow>
          (case parseIntJs parseInt (propOf (propOf data ''forward'') ''port'') of
             Inl x \<Rightarrow> Inl x
           | Inr fp \<Rightarrow>
               Inr \<lparr>name = nm,
                    protocol = propOf data ''protocol'',
                    listen =
                      \<lparr>host = (if truthy (propOf (propOf data ''listen'') ''host'')
                               then propOf (propOf data ''listen'') ''host''
                               else JStr ''0.0.0.0''),
                       port = lp\<rparr>,
                    forward = \<lparr>host = propOf (propOf data ''forward'') ''host'', port = fp\<rparr>,
                    enabled = (\<not> strictEq (propOf data ''enabled'') (JBool False))\<rparr>))"

text \<open>The \<^verbatim>\<open>catch\<close> of \<^verbatim>\<open>handleApiRequest\<close>: the error is logged and answered 500.\<close>

definition internalError :: "state \<Rightarrow> response \<times> state" where
  "internalError s =
     (\<lparr>statusCode = 500, body = \<lparr>success = False, message = InternalError\<rparr>\<rparr>,
      log LError ''API error'' s)"

text \<open>
  The branch of \<^verbatim>\<open>handleApiRequest\<close> for \<^verbatim>\<open>POST /routes\<close>. The first read of a
  property of \<^verbatim>\<open>data\<close> throws when the body parsed to \<^verbatim>\<open>null\<close>; that exception,
  one of \<^verbatim>\<open>parseInt\<close> and one that leaves \<^verbatim>\<open>addRoute\<close> all end in the \<^verbatim>\<open>catch\<close>.
\<close>

definition apiPostRoutes ::
  "runtime \<Rightarrow> (jsval \<Rightarrow> jsval) \<Rightarrow> jsval \<Rightarrow> state \<Rightarrow> response \<times> state" where
  "apiPostRoutes rt parseInt data s =
     (case getProp data ''name'' of
        Inl e \<Rightarrow> internalError s
      | Inr nm \<Rightarrow>
          if \<not> (truthy nm \<and> truthy (propOf data ''protocol'') \<and>
                 truthy (propOf data ''listen'') \<and> truthy (propOf data ''forward''))
          then (\<lparr>statusCode = 400, body = \<lparr>success = False, message = MissingFields\<rparr>\<rparr>, s)
          else
            (case routeOfRequest parseInt nm data of
               Inl x \<Rightarrow> internalError s
             | Inr routeConfig \<Rightarrow>
                 (case addRoute rt routeConfig s of
                    (Inl x, s') \<Rightarrow> internalError s'
                  | (Inr res, s') \<Rightarrow>
                      (\<lparr>statusCode = (if success res then 201 else 400), body = res\<rparr>, s'))))"

text \<open>
  The branch for \<^verbatim>\<open>PUT /routes/<name>\<close>; \<open>routeName\<close> is the third segment of the
  path, a string.
\<close>

definition apiPutRoute ::
  "runtime \<Rightarrow> (jsval \<Rightarrow> jsval) \<Rightarrow> string \<Rightarrow> jsval \<Rightarrow> state \<Rightarrow> response \<times> state" where
  "apiPutRoute rt parseInt routeName data s =
     (case getProp data ''protocol'' of
        Inl e \<Rightarrow> internalError s
      | Inr p \<Rightarrow>
          if \<not> (truthy p \<and> truthy (propOf data ''listen'') \<and> truthy (propOf data ''forward''))
          then (\<lparr>statusCode = 400, body = \<lparr>success = False, message = MissingFields\<rparr>\<rparr>, s)
          else
            (case routeOfRequest parseInt JUndefined data of
               Inl x \<Rightarrow> internalError s
             | Inr routeConfig \<Rightarrow>
                 (case updateRoute rt (JStr routeName) routeConfig s of
                    (Inl x, s') \<Rightarrow> internalError s'
                  | (Inr res, s') \<Rightarrow>
                      (\<lparr>statusCode = (if success res then 200 else 404), body = res\<rparr>, s'))))"

section \<open>Notions the properties are stated with\<close>

text \<open>
  Two listeners or routes have the same address when their protocols, their listen hosts
  and their listen ports are equal under \<^verbatim>\<open>===\<close>, the comparison of the scan.
\<close>

definition sameAddress :: "'a named_scheme \<Rightarrow> 'b named_scheme \<Rightarrow> bool" where
  "sameAddress a b =
     (strictEq (protocol a) (protocol b) \<and>
      strictEq (port (listen a)) (port (listen b)) \<and>
      strictEq (host (listen a)) (host (listen b)))"

text \<open>No two entries of the list have the same address.\<close>

fun noClash :: "active list \<Rightarrow> bool" where
  "noClash [] = True"
| "noClash (e # es) = ((\<not> list_ex (sameAddress e) es) \<and> noClash es)"

text \<open>What an entry of \<^verbatim>\<open>activeServers\<close> and the route it was pushed for share.\<close>

definition descr :: "'a named_scheme \<Rightarrow> jsval \<times> jsval \<times> endpoint \<times> endpoint" where
  "descr x = (name x, protocol x, listen x, forward x)"

text \<open>
  The protocol is one the program starts a listener for, and neither the creation of the
  socket nor \<^verbatim>\<open>listen\<close>/\<^verbatim>\<open>bind\<close> throws.
\<close>

definition startable :: "runtime \<Rightarrow> 'a named_scheme \<Rightarrow> bool" where
  "startable rt r =
     (if protocol r = JStr ''tcp'' then \<not> listenThrows rt (listen r)
      else if protocol r = JStr ''udp''
      then (\<not> createSocketThrows rt) \<and> (\<not> listenThrows rt (listen r))
      else False)"

fun refId :: "jsref \<Rightarrow> nat" where
  "refId (NetServer h) = h"
| "refId (DgramSocket h) = h"
| "refId (Wrapper h) = h"

text \<open>
  The routes of a table that run after a pass over it, said without the state: a route
  runs when it is enabled and startable and no enabled, startable route before it in the
  table (\<open>prev\<close>, then the routes passed) has its address.
\<close>

fun winners :: "runtime \<Rightarrow> route list \<Rightarrow> route list \<Rightarrow> route list" where
  "winners rt prev [] = []"
| "winners rt prev (r # rs) =
     (if enabled r \<and> startable rt r \<and>
         \<not> list_ex (\<lambda>r'. enabled r' \<and> startable rt r' \<and> sameAddress r' r) prev
      then r # winners rt (prev @ [r]) rs
      else winners rt (prev @ [r]) rs)"

text \<open>
  The \<^verbatim>\<open>active\<close> flag that \<^verbatim>\<open>getAllRoutes\<close> derives for a name:
  \<^verbatim>\<open>activeServers.some(s => s.name === route.name)\<close>.
\<close>

definition hasListener :: "jsval \<Rightarrow> state \<Rightarrow> bool" where
  "hasListener n s = list_ex (hasName n) (activeServers s)"

text \<open>The entry of the table of open sockets that the start of a listener adds for an entry.\<close>

definition listenerOf :: "active \<Rightarrow> nat \<times> sockinfo" where
  "listenerOf e =
     (refId (server e),
      if protocol e = JStr ''tcp'' then TcpListener (listen e) (forward e)
      else UdpListener (listen e) (forward e))"

text \<open>
  The messages that interpolate the name of a route, or the name and the protocol of an
  entry of the active set, can be built.
\<close>

definition nameConverts :: "'a named_scheme \<Rightarrow> bool" where
  "nameConverts x = (\<not> toStringThrows (name x))"

text \<open>
  A pass over a table throws, said without the state: some enabled route of the
  protocol \<^verbatim>\<open>'tcp'\<close> or \<^verbatim>\<open>'udp'\<close> does not run (it is not startable, or an enabled,
  startable route before it in the table has its address) and has a name with no
  conversion to a string, so that the message of its failure cannot be built.
\<close>

fun passThrows :: "runtime \<Rightarrow> route list \<Rightarrow> route list \<Rightarrow> bool" where
  "passThrows rt prev [] = False"
| "passThrows rt prev (r # rs) =
     ((enabled r \<and> (protocol r = JStr ''tcp'' \<or> protocol r = JStr ''udp'') \<and>
       toStringThrows (name r) \<and>
       \<not> (startable rt r \<and>
          \<not> list_ex (\<lambda>r'. enabled r' \<and> startable rt r' \<and> sameAddress r' r) prev))
      \<or> passThrows rt (prev @ [r]) rs)"

section \<open>Example states\<close>

definition rt0 :: runtime where
  "rt0 = \<lparr>listenThrows = (\<lambda>e. False), createSocketThrows = False, writeThrows = False\<rparr>"

definition state0 :: state where
  "state0 =
     \<lparr>routes = [], activeServers = [], nextId = 0, sockets = [], clients = [], timers = [],
      sent = [], saved = [], logs = []\<rparr>"

definition mkRoute :: "string \<Rightarrow> string \<Rightarrow> int \<Rightarrow> int \<Rightarrow> bool \<Rightarrow> route" where
  "mkRoute n p lp fp en =
     \<lparr>name = JStr n, protocol = JStr p,
      listen = \<lparr>host = JStr ''0.0.0.0'', port = JNum lp\<rparr>,
      forward = \<lparr>host = JStr ''10.0.0.1'', port = JNum fp\<rparr>,
      enabled = en\<rparr>"

definition request1 :: jsval where
  "request1 =
     JObj [(''name'', JStr ''a''), (''protocol'', JStr ''tcp''),
           (''listen'', JObj [(''port'', JNum 80)]),
           (''forward'', JObj [(''host'', JStr ''10.0.0.1''), (''port'', JNum 81)])]"

definition request2 :: jsval where
  "request2 =
     JObj [(''protocol'', JStr ''tcp''),
           (''listen'', JObj [(''host'', JStr []), (''port'', JNum 80)]),
           (''forward'', JObj [(''host'', JStr ''10.0.0.2''), (''port'', JNum 82)]),
           (''enabled'', JBool False)]"

definition routeA :: route where
  "routeA = mkRoute ''a'' ''tcp'' 80 81 True"

definition routeB :: route where
  "routeB = mkRoute ''b'' ''tcp'' 80 82 True"

definition routeC :: route where
  "routeC = mkRoute ''c'' ''udp'' 80 83 True"

text \<open>One TCP listener runs, for \<open>routeA\<close>.\<close>

definition stateA :: state where
  "stateA =
     state0\<lparr>routes := [routeA],
            activeServers := [entryFor (JStr ''a'') routeA (NetServer 0)],
            nextId := 1,
            sockets := [(0, TcpListener (listen routeA) (forward routeA))]\<rparr>"

text \<open>A table of three routes, the first two on the same address; nothing runs yet.\<close>

definition stateABC :: state where
  "stateABC = state0\<lparr>routes := [routeA, routeB, routeC]\<rparr>"

text \<open>A route of a protocol the program has no listener for, disabled.\<close>

definition routeS :: route where
  "routeS = mkRoute ''s'' ''sctp'' 90 91 False"

text \<open>\<open>stateA\<close> with \<open>routeS\<close> in the table.\<close>

definition stateAS :: state where
  "stateAS = stateA\<lparr>routes := [routeA, routeS]\<rparr>"

text \<open>
  The table \<open>[routeA, routeB]\<close> after \<^verbatim>\<open>startAllProxies\<close> (\<open>routeB\<close>, on the address
  of \<open>routeA\<close>, did not start) and a toggle of \<open>routeA\<close>, which stopped it.
\<close>

definition stateAB :: state where
  "stateAB = state0\<lparr>routes := [routeA, routeB]\<rparr>"

definition stateToggled :: state where
  "stateToggled = snd (toggleRoute rt0 (JStr ''a'') (snd (startAllProxies rt0 stateAB)))"

text \<open>
  A UDP listener runs for \<open>routeC\<close> (handle 0, after \<^verbatim>\<open>startAllProxies\<close>), and then
  has one session, created by a first datagram of the client \<open>clientK\<close>.
\<close>

definition clientK :: rinfo where
  "clientK = (''192.0.2.7'', 5000)"

definition stateC :: state where
  "stateC = snd (startAllProxies rt0 (state0\<lparr>routes := [routeC]\<rparr>))"

definition stateSession :: state where
  "stateSession = udpOnMessage rt0 0 (forward routeC) clientK ''ping'' stateC"

text \<open>\<open>routeC\<close> with another forward target.\<close>

definition routeC2 :: route where
  "routeC2 = mkRoute ''c'' ''udp'' 80 99 True"

text \<open>
  A name that passes the required-field check (an object is truthy) and has no
  conversion to a string: the body \<^verbatim>\<open>{"toString": 1}\<close>.
\<close>

definition exoticName :: jsval where
  "exoticName = JObj [(''toString'', JNum 1)]"

text \<open>A route of that name on the address of \<open>routeA\<close>, and one of another protocol.\<close>

definition routeX :: route where
  "routeX = (mkRoute [] ''tcp'' 80 84 True)\<lparr>name := exoticName\<rparr>"

definition routeXS :: route where
  "routeXS = (mkRoute [] ''sctp'' 90 91 True)\<lparr>name := exoticName\<rparr>"

definition requestXS :: jsval where
  "requestXS =
     JObj [(''name'', exoticName), (''protocol'', JStr ''sctp''),
           (''listen'', JObj [(''port'', JNum 90)]),
           (''forward'', JObj [(''host'', JStr ''10.0.0.1''), (''port'', JNum 91)])]"

text \<open>A request that passes the required-field check with a port of no conversion.\<close>

definition request3 :: jsval where
  "request3 =
     JObj [(''name'', JStr ''d''), (''protocol'', JStr ''tcp''),
           (''listen'', JObj [(''port'', exoticName)]),
           (''forward'', JObj [(''host'', JStr ''10.0.0.1''), (''port'', JNum 81)])]"

text \<open>The table \<open>[routeA, routeX, routeC]\<close>; nothing runs yet.\<close>

definition stateAXC :: state where
  "stateAXC = state0\<lparr>routes := [routeA, routeX, routeC]\<rparr>"

text \<open>The listener of \<open>routeA\<close> runs (handle 0) and the table is \<open>[routeA, routeB, routeC]\<close>.\<close>

definition stateARun :: state where
  "stateARun = stateA\<lparr>routes := [routeA, routeB, routeC]\<rparr>"

text \<open>An enabled route of a protocol the program has no listener for.\<close>

definition routeS1 :: route where
  "routeS1 = mkRoute ''s'' ''sctp'' 90 91 True"


text \<open>\<open>stateA\<close> with \<open>routeS1\<close> in the table.\<close>

definition stateAS1 :: state where
  "stateAS1 = stateA\<lparr>routes := [routeA, routeS1]\<rparr>"


text \<open>
  A runtime in which \<^verbatim>\<open>listen\<close> and \<^verbatim>\<open>bind\<close> throw for the port 70000 (out of
  range), a TCP and a UDP route on that port, and the state in which the listener of
  \<open>routeA\<close> runs (handle 0) and the table is
  \<open>[routeA, routeB, routeD, routeE, routeC]\<close>.
\<close>

definition rt1 :: runtime where
  "rt1 = rt0\<lparr>listenThrows := (\<lambda>e. port e = JNum 70000)\<rparr>"

definition routeD :: route where
  "routeD = mkRoute ''d'' ''tcp'' 70000 85 True"

definition routeE :: route where
  "routeE = mkRoute ''e'' ''udp'' 70000 86 True"

definition stateRunD :: state where
  "stateRunD = stateA\<lparr>routes := [routeA, routeB, routeD, routeE, routeC]\<rparr>"

section \<open>Basic facts\<close>

lemma strictEq_eq: "strictEq a b \<Longrightarrow> a = b"
  by (cases a) auto

lemma strictEq_JStr [simp]: "strictEq (JStr x) b = (b = JStr x)"
  by auto

lemma strictEq_JStr_right [simp]: "strictEq a (JStr x) = (a = JStr x)"
  by (cases a) auto

lemma strictEq_converts: "strictEq a b \<Longrightarrow> \<not> toStringThrows a \<and> \<not> toStringThrows b"
  by (cases a) auto

lemma findIndex_None: "(findIndex P xs = None) = (\<not> list_ex P xs)"
  by (induction xs) (auto split: option.splits)

lemma findIndex_Some: "findIndex P xs = Some i \<Longrightarrow> i < length xs \<and> P (xs ! i)"
proof (induction xs arbitrary: i)
  case Nil
  then show ?case by simp
next
  case (Cons x xs)
  then show ?case by (auto split: if_splits option.splits)
qed

lemma log_fields [simp]:
  "routes (log l m s) = routes s"
  "activeServers (log l m s) = activeServers s"
  "nextId (log l m s) = nextId s"
  "sockets (log l m s) = sockets s"
  "clients (log l m s) = clients s"
  "timers (log l m s) = timers s"
  "saved (log l m s) = saved s"
  "sent (log l m s) = sent s"
  by (simp_all add: log_def)

lemma saveConfig_fields [simp]:
  "routes (saveConfig rt s) = routes s"
  "activeServers (saveConfig rt s) = activeServers s"
  "nextId (saveConfig rt s) = nextId s"
  "sockets (saveConfig rt s) = sockets s"
  "clients (saveConfig rt s) = clients s"
  "timers (saveConfig rt s) = timers s"
  by (simp_all add: saveConfig_def)

lemma callClose_fields [simp]:
  "routes (snd (callClose x s)) = routes s"
  "activeServers (snd (callClose x s)) = activeServers s"
  "nextId (snd (callClose x s)) = nextId s"
  by (cases x; simp add: netClose_def dgramClose_def dropSocket_def)+

lemma startTcpProxy_fields [simp]:
  "routes (snd (startTcpProxy rt r s)) = routes s"
  "activeServers (snd (startTcpProxy rt r s)) = activeServers s"
  by (simp_all add: startTcpProxy_def Let_def)

lemma startUdpProxy_fields [simp]:
  "routes (snd (startUdpProxy rt r s)) = routes s"
  "activeServers (snd (startUdpProxy rt r s)) = activeServers s"
  by (simp_all add: startUdpProxy_def Let_def)

lemma startRoute_fields [simp]:
  "routes (snd (startRoute rt r s)) = routes s"
  "activeServers (snd (startRoute rt r s)) = activeServers s"
  by (simp_all add: startRoute_def)

lemma pushActive_alt:
  "pushActive n r res =
     (case fst res of
        Inl x \<Rightarrow> (Some x, snd res)
      | Inr None \<Rightarrow> (None, snd res)
      | Inr (Some srv) \<Rightarrow>
          (None, (snd res)\<lparr>activeServers := activeServers (snd res) @ [entryFor n r srv]\<rparr>))"
  by (cases res) (simp add: pushActive_def split: option.splits sum.splits)

lemma startAndPush_routes [simp]: "routes (snd (startAndPush rt n r s)) = routes s"
  by (simp add: startAndPush_def pushActive_alt split: option.splits sum.splits)

lemma startAndPush_fst:
  "fst (startAndPush rt n r s) = (case fst (startRoute rt r s) of Inl x \<Rightarrow> Some x | Inr y \<Rightarrow> None)"
  by (simp add: startAndPush_def pushActive_alt split: option.splits sum.splits)

lemma startAndPush_active:
  "activeServers (snd (startAndPush rt n r s)) =
     activeServers s @
       (case fst (startRoute rt r s) of Inr (Some srv) \<Rightarrow> [entryFor n r srv] | _ \<Rightarrow> [])"
  by (simp add: startAndPush_def pushActive_alt split: option.splits sum.splits)

lemma startRoute_throws:
  "fst (startRoute rt r s) = Inl x \<Longrightarrow> toStringThrows (name r) \<and> x = TypeError"
  by (auto simp: startRoute_def startTcpProxy_def startUdpProxy_def Let_def split: if_splits)

lemma startAndPush_returns:
  "\<not> toStringThrows (name r) \<Longrightarrow> fst (startAndPush rt n r s) = None"
  using startRoute_throws[of rt r s]
  by (cases "fst (startRoute rt r s)") (auto simp: startAndPush_fst)

lemma stopServerFor_routes [simp]: "routes (stopServerFor a n s) = routes s"
  by (cases "server a")
     (simp_all add: stopServerFor_def netClose_def dgramClose_def dropSocket_def
        split: prod.splits option.splits)

section \<open>Unknown names\<close>

text \<open>
  C7. For a name that no route of the table carries (the \<^verbatim>\<open>findIndex\<close> of the three
  functions finds nothing), \<^verbatim>\<open>removeRoute\<close>, \<^verbatim>\<open>updateRoute\<close> and \<^verbatim>\<open>toggleRoute\<close>
  each return \<^verbatim>\<open>success: false\<close> with the not-found message (they return: no
  exception leaves them), and the state they return is the state they were given: the
  route table, the active listeners, the sockets, the saved configurations and the log
  are all unchanged.
\<close>

theorem unknown_name_fails_unchanged:
  assumes "\<not> list_ex (hasName n) (routes s)"
  shows "removeRoute rt n s = (\<lparr>success = False, message = NotFound n\<rparr>, s)
       \<and> updateRoute rt n rc s = (Inr \<lparr>success = False, message = NotFound n\<rparr>, s)
       \<and> toggleRoute rt n s = (Inr \<lparr>success = False, message = NotFound n\<rparr>, s)"
proof -
  from assms have "findIndex (hasName n) (routes s) = None"
    by (simp add: findIndex_None)
  then show ?thesis
    by (simp add: removeRoute_def updateRoute_def toggleRoute_def)
qed

theorem unknown_name_fails_unchanged_witness:
  "removeRoute rt0 (JStr ''b'') (state0\<lparr>routes := [mkRoute ''a'' ''tcp'' 80 81 True]\<rparr>)
     = (\<lparr>success = False, message = NotFound (JStr ''b'')\<rparr>,
        state0\<lparr>routes := [mkRoute ''a'' ''tcp'' 80 81 True]\<rparr>)
   \<and> updateRoute rt0 (JStr ''b'') (mkRoute ''x'' ''udp'' 1 2 True)
        (state0\<lparr>routes := [mkRoute ''a'' ''tcp'' 80 81 True]\<rparr>)
     = (Inr \<lparr>success = False, message = NotFound (JStr ''b'')\<rparr>,
        state0\<lparr>routes := [mkRoute ''a'' ''tcp'' 80 81 True]\<rparr>)
   \<and> toggleRoute rt0 (JStr ''b'') (state0\<lparr>routes := [mkRoute ''a'' ''tcp'' 80 81 True]\<rparr>)
     = (Inr \<lparr>success = False, message = NotFound (JStr ''b'')\<rparr>,
        state0\<lparr>routes := [mkRoute ''a'' ''tcp'' 80 81 True]\<rparr>)"
proof -
  have "\<not> list_ex (hasName (JStr ''b'')) (routes (state0\<lparr>routes := [mkRoute ''a'' ''tcp'' 80 81 True]\<rparr>))"
    by (simp add: hasName_def mkRoute_def)
  then show ?thesis
    by (rule unknown_name_fails_unchanged)
qed

section \<open>Defaults at the control plane\<close>

lemma addRoute_routes:
  "routes (snd (addRoute rt rc s)) =
     (if List.find (hasName (name rc)) (routes s) = None then routes s @ [rc] else routes s)"
  by (simp add: addRoute_def Let_def split_beta split: option.splits)

lemma addRoute_success:
  "fst (addRoute rt rc s) = Inr res \<Longrightarrow> success res \<Longrightarrow>
     List.find (hasName (name rc)) (routes s) = None"
  by (auto simp: addRoute_def Let_def split_beta returnMsg_def split: option.splits if_splits)

lemma updateRoute_routes:
  "routes (snd (updateRoute rt n rc s)) =
     (case findIndex (hasName n) (routes s) of
        None \<Rightarrow> routes s | Some i \<Rightarrow> (routes s)[i := rc\<lparr>name := n\<rparr>])"
  by (simp add: updateRoute_def Let_def split_beta split: option.splits)

lemma updateRoute_success:
  "fst (updateRoute rt n rc s) = Inr res \<Longrightarrow> success res \<Longrightarrow>
     \<exists>i. findIndex (hasName n) (routes s) = Some i"
  by (auto simp: updateRoute_def Let_def split_beta split: option.splits if_splits)

lemma internalError_fields [simp]:
  "routes (snd (internalError s)) = routes s"
  "statusCode (fst (internalError s)) = 500"
  by (simp_all add: internalError_def)

lemma routeOfRequest_defaults:
  assumes "routeOfRequest pI nm data = Inr rc"
  shows "host (listen rc) =
           (if truthy (propOf (propOf data ''listen'') ''host'')
            then propOf (propOf data ''listen'') ''host'' else JStr ''0.0.0.0'')
       \<and> enabled rc = (propOf data ''enabled'' \<noteq> JBool False)
       \<and> name rc = nm"
  using assms
  by (cases "propOf data ''enabled''")
     (auto simp: routeOfRequest_def split: sum.splits)

lemma routeOfRequest_throws:
  "(\<exists>x. routeOfRequest pI nm data = Inl x) =
     (toStringThrows (propOf (propOf data ''listen'') ''port'') \<or>
      toStringThrows (propOf (propOf data ''forward'') ''port''))"
  by (auto simp: routeOfRequest_def parseIntJs_def split: sum.splits if_splits)

lemma getProp_of_truthy: "truthy (propOf data k) \<Longrightarrow> getProp data k' = Inr (propOf data k')"
  by (cases data) (simp_all add: propOf_def)

lemma apiPostRoutes_checked:
  assumes "truthy (propOf data ''name'')" and "truthy (propOf data ''protocol'')"
    and "truthy (propOf data ''listen'')" and "truthy (propOf data ''forward'')"
  shows "apiPostRoutes rt pI data s =
     (case routeOfRequest pI (propOf data ''name'') data of
        Inl x \<Rightarrow> internalError s
      | Inr rc \<Rightarrow>
          (case addRoute rt rc s of
             (Inl x, s') \<Rightarrow> internalError s'
           | (Inr res, s') \<Rightarrow>
               (\<lparr>statusCode = (if success res then 201 else 400), body = res\<rparr>, s')))"
  using assms getProp_of_truthy[OF assms(1), of "''name''"]
  by (simp add: apiPostRoutes_def)

lemma apiPutRoute_checked:
  assumes "truthy (propOf data ''protocol'')"
    and "truthy (propOf data ''listen'')" and "truthy (propOf data ''forward'')"
  shows "apiPutRoute rt pI n data s =
     (case routeOfRequest pI JUndefined data of
        Inl x \<Rightarrow> internalError s
      | Inr rc \<Rightarrow>
          (case updateRoute rt (JStr n) rc s of
             (Inl x, s') \<Rightarrow> internalError s'
           | (Inr res, s') \<Rightarrow>
               (\<lparr>statusCode = (if success res then 200 else 404), body = res\<rparr>, s')))"
  using assms getProp_of_truthy[OF assms(1), of "''protocol''"]
  by (simp add: apiPutRoute_def)

lemma apiPostRoutes_stored:
  assumes "truthy (propOf data ''name'')" and "truthy (propOf data ''protocol'')"
    and "truthy (propOf data ''listen'')" and "truthy (propOf data ''forward'')"
  shows "(routes (snd (apiPostRoutes rt pI data s)) = routes s \<and>
            statusCode (fst (apiPostRoutes rt pI data s)) \<noteq> 201)
       \<or> (\<exists>rc. routeOfRequest pI (propOf data ''name'') data = Inr rc \<and>
             routes (snd (apiPostRoutes rt pI data s)) = routes s @ [rc])"
proof (cases "routeOfRequest pI (propOf data ''name'') data")
  case (Inl x)
  then show ?thesis
    by (simp add: apiPostRoutes_checked[OF assms])
next
  case (Inr rc)
  obtain o' s' where a: "addRoute rt rc s = (o', s')" by (cases "addRoute rt rc s")
  have r: "routes s' =
      (if List.find (hasName (name rc)) (routes s) = None then routes s @ [rc] else routes s)"
    using addRoute_routes[of rt rc s] a by simp
  show ?thesis
  proof (cases "List.find (hasName (name rc)) (routes s) = None")
    case True
    with Inr a r show ?thesis
      by (simp add: apiPostRoutes_checked[OF assms] split: sum.splits)
  next
    case False
    with addRoute_success[of rt rc s] a have "\<And>res. o' = Inr res \<Longrightarrow> \<not> success res"
      by auto
    with False Inr a r show ?thesis
      by (auto simp: apiPostRoutes_checked[OF assms] split: sum.splits)
  qed
qed

lemma apiPutRoute_stored:
  assumes "truthy (propOf data ''protocol'')"
    and "truthy (propOf data ''listen'')" and "truthy (propOf data ''forward'')"
  shows "(routes (snd (apiPutRoute rt pI n data s)) = routes s \<and>
            statusCode (fst (apiPutRoute rt pI n data s)) \<noteq> 200)
       \<or> (\<exists>rc i. routeOfRequest pI JUndefined data = Inr rc \<and>
             findIndex (hasName (JStr n)) (routes s) = Some i \<and>
             routes (snd (apiPutRoute rt pI n data s)) = (routes s)[i := rc\<lparr>name := JStr n\<rparr>])"
proof (cases "routeOfRequest pI JUndefined data")
  case (Inl x)
  then show ?thesis
    by (simp add: apiPutRoute_checked[OF assms])
next
  case (Inr rc)
  obtain o' s' where a: "updateRoute rt (JStr n) rc s = (o', s')"
    by (cases "updateRoute rt (JStr n) rc s")
  have r: "routes s' =
     (case findIndex (hasName (JStr n)) (routes s) of
        None \<Rightarrow> routes s | Some i \<Rightarrow> (routes s)[i := rc\<lparr>name := JStr n\<rparr>])"
    using updateRoute_routes[of rt "JStr n" rc s] a by simp
  show ?thesis
  proof (cases "findIndex (hasName (JStr n)) (routes s)")
    case None
    with updateRoute_success[of rt "JStr n" rc s] a have "\<And>res. o' = Inr res \<Longrightarrow> \<not> success res"
      by auto
    with None Inr a r show ?thesis
      by (auto simp: apiPutRoute_checked[OF assms] split: sum.splits)
  next
    case (Some i)
    with Inr a r show ?thesis
      by (simp add: apiPutRoute_checked[OF assms] split: sum.splits)
  qed
qed

text \<open>
  C10. Take a \<^verbatim>\<open>POST /routes\<close> or \<^verbatim>\<open>PUT /routes/<name>\<close> request whose body passes
  the required-field check (\<^verbatim>\<open>protocol\<close>, \<^verbatim>\<open>listen\<close> and \<^verbatim>\<open>forward\<close> truthy, and
  \<^verbatim>\<open>name\<close> too for the first). The route definition that the handler builds from it
  has as listen host the one of the request when that is truthy and \<^verbatim>\<open>'0.0.0.0'\<close>
  when it is omitted or falsy, and is disabled exactly when the request has
  \<^verbatim>\<open>enabled === false\<close>; it is built unless one of the two ports has no conversion
  to a string (\<^verbatim>\<open>parseInt\<close> then throws and the answer is 500). The handler hands
  that definition to \<^verbatim>\<open>addRoute\<close> or \<^verbatim>\<open>updateRoute\<close>, and whenever it answers 201
  or 200, and whenever it changes the route table at all, what the table has got is
  that definition (under the name of the path for the second).
\<close>

theorem api_defaults:
  assumes "truthy (propOf data ''protocol'')" and "truthy (propOf data ''listen'')"
    and "truthy (propOf data ''forward'')"
  shows "(routeOfRequest pI nm data = Inr rc \<longrightarrow>
            host (listen rc) =
              (if truthy (propOf (propOf data ''listen'') ''host'')
               then propOf (propOf data ''listen'') ''host'' else JStr ''0.0.0.0'')
          \<and> enabled rc = (propOf data ''enabled'' \<noteq> JBool False))
     \<and> ((\<exists>x. routeOfRequest pI nm data = Inl x) =
          (toStringThrows (propOf (propOf data ''listen'') ''port'') \<or>
           toStringThrows (propOf (propOf data ''forward'') ''port'')))
     \<and> (truthy (propOf data ''name'') \<longrightarrow>
          apiPostRoutes rt pI data s =
            (case routeOfRequest pI (propOf data ''name'') data of
               Inl x \<Rightarrow> internalError s
             | Inr rc \<Rightarrow>
                 (case addRoute rt rc s of
                    (Inl x, s') \<Rightarrow> internalError s'
                  | (Inr res, s') \<Rightarrow>
                      (\<lparr>statusCode = (if success res then 201 else 400), body = res\<rparr>, s')))
        \<and> (statusCode (fst (apiPostRoutes rt pI data s)) = 201 \<or>
             routes (snd (apiPostRoutes rt pI data s)) \<noteq> routes s \<longrightarrow>
               (\<exists>rc. routeOfRequest pI (propOf data ''name'') data = Inr rc \<and>
                  routes (snd (apiPostRoutes rt pI data s)) = routes s @ [rc])))
     \<and> apiPutRoute rt pI n data s2 =
          (case routeOfRequest pI JUndefined data of
             Inl x \<Rightarrow> internalError s2
           | Inr rc \<Rightarrow>
               (case updateRoute rt (JStr n) rc s2 of
                  (Inl x, s') \<Rightarrow> internalError s'
                | (Inr res, s') \<Rightarrow>
                    (\<lparr>statusCode = (if success res then 200 else 404), body = res\<rparr>, s')))
     \<and> (statusCode (fst (apiPutRoute rt pI n data s2)) = 200 \<or>
          routes (snd (apiPutRoute rt pI n data s2)) \<noteq> routes s2 \<longrightarrow>
            (\<exists>rc i. routeOfRequest pI JUndefined data = Inr rc \<and>
               findIndex (hasName (JStr n)) (routes s2) = Some i \<and>
               routes (snd (apiPutRoute rt pI n data s2)) = (routes s2)[i := rc\<lparr>name := JStr n\<rparr>]))"
proof -
  have A: "routeOfRequest pI nm data = Inr rc \<longrightarrow>
            host (listen rc) =
              (if truthy (propOf (propOf data ''listen'') ''host'')
               then propOf (propOf data ''listen'') ''host'' else JStr ''0.0.0.0'')
          \<and> enabled rc = (propOf data ''enabled'' \<noteq> JBool False)"
    using routeOfRequest_defaults[of pI nm data rc] by blast
  note B = routeOfRequest_throws[of pI nm data]
  have post: "apiPostRoutes rt pI data s =
            (case routeOfRequest pI (propOf data ''name'') data of
               Inl x \<Rightarrow> internalError s
             | Inr rc \<Rightarrow>
                 (case addRoute rt rc s of
                    (Inl x, s') \<Rightarrow> internalError s'
                  | (Inr res, s') \<Rightarrow>
                      (\<lparr>statusCode = (if success res then 201 else 400), body = res\<rparr>, s')))
        \<and> (statusCode (fst (apiPostRoutes rt pI data s)) = 201 \<or>
             routes (snd (apiPostRoutes rt pI data s)) \<noteq> routes s \<longrightarrow>
               (\<exists>rc. routeOfRequest pI (propOf data ''name'') data = Inr rc \<and>
                  routes (snd (apiPostRoutes rt pI data s)) = routes s @ [rc]))"
    if nm: "truthy (propOf data ''name'')"
    using apiPostRoutes_checked[OF nm assms, of rt pI s]
      apiPostRoutes_stored[OF nm assms, of rt pI s]
    by blast
  have put: "apiPutRoute rt pI n data s2 =
          (case routeOfRequest pI JUndefined data of
             Inl x \<Rightarrow> internalError s2
           | Inr rc \<Rightarrow>
               (case updateRoute rt (JStr n) rc s2 of
                  (Inl x, s') \<Rightarrow> internalError s'
                | (Inr res, s') \<Rightarrow>
                    (\<lparr>statusCode = (if success res then 200 else 404), body = res\<rparr>, s')))"
    by (rule apiPutRoute_checked[OF assms])
  have put2: "statusCode (fst (apiPutRoute rt pI n data s2)) = 200 \<or>
          routes (snd (apiPutRoute rt pI n data s2)) \<noteq> routes s2 \<longrightarrow>
            (\<exists>rc i. routeOfRequest pI JUndefined data = Inr rc \<and>
               findIndex (hasName (JStr n)) (routes s2) = Some i \<and>
               routes (snd (apiPutRoute rt pI n data s2)) = (routes s2)[i := rc\<lparr>name := JStr n\<rparr>])"
    using apiPutRoute_stored[OF assms, of rt pI n s2] by blast
  from A B post put put2 show ?thesis by blast
qed

theorem api_defaults_witness:
  "routes (snd (apiPostRoutes rt0 (\<lambda>v. v) request1 state0)) =
     [\<lparr>name = JStr ''a'', protocol = JStr ''tcp'',
       listen = \<lparr>host = JStr ''0.0.0.0'', port = JNum 80\<rparr>,
       forward = \<lparr>host = JStr ''10.0.0.1'', port = JNum 81\<rparr>, enabled = True\<rparr>]
   \<and> routes (snd (apiPutRoute rt0 (\<lambda>v. v) ''a'' request2
        (state0\<lparr>routes := [mkRoute ''a'' ''tcp'' 80 81 True]\<rparr>))) =
     [\<lparr>name = JStr ''a'', protocol = JStr ''tcp'',
       listen = \<lparr>host = JStr ''0.0.0.0'', port = JNum 80\<rparr>,
       forward = \<lparr>host = JStr ''10.0.0.2'', port = JNum 82\<rparr>, enabled = False\<rparr>]
   \<and> apiPostRoutes rt0 (\<lambda>v. v) request3 state0 = internalError state0"
proof -
  have t1: "truthy (propOf request1 ''protocol'')" "truthy (propOf request1 ''listen'')"
    "truthy (propOf request1 ''forward'')" "truthy (propOf request1 ''name'')"
    by (simp_all add: request1_def propOf_def)
  have t2: "truthy (propOf request2 ''protocol'')" "truthy (propOf request2 ''listen'')"
    "truthy (propOf request2 ''forward'')"
    by (simp_all add: request2_def propOf_def)
  have t3: "truthy (propOf request3 ''protocol'')" "truthy (propOf request3 ''listen'')"
    "truthy (propOf request3 ''forward'')" "truthy (propOf request3 ''name'')"
    by (simp_all add: request3_def propOf_def)
  have r1: "routeOfRequest (\<lambda>v. v) (propOf request1 ''name'') request1 =
     Inr \<lparr>name = JStr ''a'', protocol = JStr ''tcp'',
       listen = \<lparr>host = JStr ''0.0.0.0'', port = JNum 80\<rparr>,
       forward = \<lparr>host = JStr ''10.0.0.1'', port = JNum 81\<rparr>, enabled = True\<rparr>"
    by (simp add: routeOfRequest_def parseIntJs_def request1_def propOf_def)
  have r2: "routeOfRequest (\<lambda>v. v) JUndefined request2 =
     Inr \<lparr>name = JUndefined, protocol = JStr ''tcp'',
       listen = \<lparr>host = JStr ''0.0.0.0'', port = JNum 80\<rparr>,
       forward = \<lparr>host = JStr ''10.0.0.2'', port = JNum 82\<rparr>, enabled = False\<rparr>"
    by (simp add: routeOfRequest_def parseIntJs_def request2_def propOf_def)
  have r3: "\<exists>x. routeOfRequest (\<lambda>v. v) (propOf request3 ''name'') request3 = Inl x"
    by (simp add: routeOfRequest_def parseIntJs_def request3_def propOf_def exoticName_def)
  have c1: "routes (snd (apiPostRoutes rt0 (\<lambda>v. v) request1 state0)) \<noteq> routes state0"
    by (simp add: apiPostRoutes_checked[OF t1(4,1,2,3)] r1 addRoute_routes split_beta
        state0_def split: sum.splits)
  have c2: "routes (snd (apiPutRoute rt0 (\<lambda>v. v) ''a'' request2
        (state0\<lparr>routes := [mkRoute ''a'' ''tcp'' 80 81 True]\<rparr>))) \<noteq>
        routes (state0\<lparr>routes := [mkRoute ''a'' ''tcp'' 80 81 True]\<rparr>)"
    by (simp add: apiPutRoute_checked[OF t2] r2 updateRoute_routes split_beta
        state0_def mkRoute_def hasName_def split: sum.splits)
  let ?rcA = "\<lparr>name = JStr ''a'', protocol = JStr ''tcp'',
       listen = \<lparr>host = JStr ''0.0.0.0'', port = JNum 80\<rparr>,
       forward = \<lparr>host = JStr ''10.0.0.1'', port = JNum 81\<rparr>, enabled = True\<rparr>"
  let ?sA = "state0\<lparr>routes := [mkRoute ''a'' ''tcp'' 80 81 True]\<rparr>"
  have a: "statusCode (fst (apiPostRoutes rt0 (\<lambda>v. v) request1 state0)) = 201 \<or>
             routes (snd (apiPostRoutes rt0 (\<lambda>v. v) request1 state0)) \<noteq> routes state0 \<longrightarrow>
               (\<exists>rc. routeOfRequest (\<lambda>v. v) (propOf request1 ''name'') request1 = Inr rc \<and>
                  routes (snd (apiPostRoutes rt0 (\<lambda>v. v) request1 state0)) = routes state0 @ [rc])"
    using api_defaults[OF t1(1,2,3), of "\<lambda>v. v" "JStr ''a''" ?rcA rt0 state0 "''a''" state0] t1(4)
    by blast
  with c1 obtain rc where "routeOfRequest (\<lambda>v. v) (propOf request1 ''name'') request1 = Inr rc"
    and "routes (snd (apiPostRoutes rt0 (\<lambda>v. v) request1 state0)) = routes state0 @ [rc]"
    by blast
  with r1 have w1: "routes (snd (apiPostRoutes rt0 (\<lambda>v. v) request1 state0)) = routes state0 @ [?rcA]"
    by simp
  have b: "statusCode (fst (apiPutRoute rt0 (\<lambda>v. v) ''a'' request2 ?sA)) = 200 \<or>
          routes (snd (apiPutRoute rt0 (\<lambda>v. v) ''a'' request2 ?sA)) \<noteq> routes ?sA \<longrightarrow>
            (\<exists>rc i. routeOfRequest (\<lambda>v. v) JUndefined request2 = Inr rc \<and>
               findIndex (hasName (JStr ''a'')) (routes ?sA) = Some i \<and>
               routes (snd (apiPutRoute rt0 (\<lambda>v. v) ''a'' request2 ?sA)) =
                 (routes ?sA)[i := rc\<lparr>name := JStr ''a''\<rparr>])"
    using api_defaults[OF t2, of "\<lambda>v. v" JUndefined ?rcA rt0 state0 "''a''" ?sA]
    by blast
  with c2 obtain rc2 i where rc2: "routeOfRequest (\<lambda>v. v) JUndefined request2 = Inr rc2"
    and i: "findIndex (hasName (JStr ''a'')) (routes ?sA) = Some i"
    and w2: "routes (snd (apiPutRoute rt0 (\<lambda>v. v) ''a'' request2 ?sA)) =
                 (routes ?sA)[i := rc2\<lparr>name := JStr ''a''\<rparr>]"
    by blast
  from i have i0: "i = 0" by (simp add: hasName_def mkRoute_def)
  have c: "apiPostRoutes rt0 (\<lambda>v. v) request3 state0 =
            (case routeOfRequest (\<lambda>v. v) (propOf request3 ''name'') request3 of
               Inl x \<Rightarrow> internalError state0
             | Inr rc \<Rightarrow>
                 (case addRoute rt0 rc state0 of
                    (Inl x, s') \<Rightarrow> internalError s'
                  | (Inr res, s') \<Rightarrow>
                      (\<lparr>statusCode = (if success res then 201 else 400), body = res\<rparr>, s')))"
    using api_defaults[OF t3(1,2,3), of "\<lambda>v. v" "JStr ''d''" ?rcA rt0 state0 "''a''" state0] t3(4)
    by blast
  from r3 obtain x where "routeOfRequest (\<lambda>v. v) (propOf request3 ''name'') request3 = Inl x"
    by blast
  with c have w3: "apiPostRoutes rt0 (\<lambda>v. v) request3 state0 = internalError state0"
    by simp
  from rc2 r2 have "rc2 = \<lparr>name = JUndefined, protocol = JStr ''tcp'',
       listen = \<lparr>host = JStr ''0.0.0.0'', port = JNum 80\<rparr>,
       forward = \<lparr>host = JStr ''10.0.0.2'', port = JNum 82\<rparr>, enabled = False\<rparr>"
    by simp
  with w1 w2 w3 i0 show ?thesis
    by (simp add: state0_def)
qed

section \<open>Facts about starting and stopping\<close>

lemma strictEq_sym: "strictEq a b \<Longrightarrow> strictEq b a"
  by (cases a) auto

lemma strictEq_trans: "strictEq a b \<Longrightarrow> strictEq b c \<Longrightarrow> strictEq a c"
  by (cases a) auto

lemma sameListen_sameAddress:
  "protocol r = p \<Longrightarrow> sameListen p e r = sameAddress e r"
  by (simp add: sameListen_def sameAddress_def)

lemma collides_iff:
  "protocol r = p \<Longrightarrow> collides p act r = list_ex (\<lambda>e. sameAddress e r) act"
  by (simp add: collides_def sameListen_sameAddress)

lemma noClash_append:
  "noClash (xs @ [e]) = (noClash xs \<and> \<not> list_ex (\<lambda>x. sameAddress x e) xs)"
  by (induction xs) (auto simp: list_ex_iff)

lemma sameAddress_trans:
  "sameAddress a b \<Longrightarrow> sameAddress b c \<Longrightarrow> sameAddress a c"
  unfolding sameAddress_def by (blast intro: strictEq_trans)

lemma sameAddress_descr: "descr a = descr b \<Longrightarrow> sameAddress a x = sameAddress b x"
  by (simp add: descr_def sameAddress_def)

lemma descr_entryFor [simp]: "descr (entryFor (name r) r srv) = descr r"
  by (simp add: descr_def entryFor_def)

lemma sameAddress_entryFor [simp]:
  "sameAddress x (entryFor n r srv) = sameAddress x r"
  "sameAddress (entryFor n r srv) x = sameAddress r x"
  by (simp_all add: sameAddress_def entryFor_def)

lemma startable_entryFor [simp]: "startable rt (entryFor n r srv) = startable rt r"
  by (simp add: startable_def entryFor_def)

lemma server_entryFor [simp]: "server (entryFor n r srv) = srv"
  by (simp add: entryFor_def)

lemma startRoute_Some:
  assumes "fst (startRoute rt r s) = Inr (Some srv)"
  shows "startable rt r \<and> \<not> list_ex (\<lambda>e. sameAddress e r) (activeServers s)
       \<and> refId srv = nextId s
       \<and> sockets (snd (startRoute rt r s)) = sockets s @ [listenerOf (entryFor n r srv)]"
  using assms
  by (auto simp: startRoute_def startTcpProxy_def startUdpProxy_def startable_def collides_iff
      listenerOf_def entryFor_def Let_def split: if_splits)

lemma startRoute_succeeds:
  assumes "startable rt r" and "\<not> list_ex (\<lambda>e. sameAddress e r) (activeServers s)"
  shows "\<exists>srv. fst (startRoute rt r s) = Inr (Some srv)"
  using assms
  by (auto simp: startRoute_def startTcpProxy_def startUdpProxy_def startable_def collides_iff
      Let_def split: if_splits)

lemma startRoute_iff:
  "(\<exists>srv. fst (startRoute rt r s) = Inr (Some srv)) =
     (startable rt r \<and> \<not> list_ex (\<lambda>e. sameAddress e r) (activeServers s))"
  using startRoute_Some[of rt r s] startRoute_succeeds[of rt r s] by blast

lemma startRoute_nextId: "nextId s \<le> nextId (snd (startRoute rt r s))"
  by (simp add: startRoute_def startTcpProxy_def startUdpProxy_def Let_def)

lemma startRoute_sockets:
  "sockets (snd (startRoute rt r s)) = sockets s \<or>
   (\<exists>i. sockets (snd (startRoute rt r s)) = sockets s @ [(nextId s, i)])"
  by (simp add: startRoute_def startTcpProxy_def startUdpProxy_def Let_def)

lemma pushActive_same [simp]:
  "nextId (snd (pushActive n r res)) = nextId (snd res)"
  "sockets (snd (pushActive n r res)) = sockets (snd res)"
  by (simp_all add: pushActive_alt split: sum.splits option.splits)

lemma startAndPush_nextId: "nextId s \<le> nextId (snd (startAndPush rt n r s))"
  using startRoute_nextId[of s rt r] by (simp add: startAndPush_def)

lemma startAndPush_sockets:
  "sockets (snd (startAndPush rt n r s)) = sockets s \<or>
   (\<exists>i. sockets (snd (startAndPush rt n r s)) = sockets s @ [(nextId s, i)])"
  using startRoute_sockets[of rt r s] by (simp add: startAndPush_def)

lemma startAndPush_cases:
  "(activeServers (snd (startAndPush rt n r s)) = activeServers s
      \<and> (\<forall>srv. fst (startRoute rt r s) \<noteq> Inr (Some srv)))
   \<or> (\<exists>srv. fst (startRoute rt r s) = Inr (Some srv) \<and>
         fst (startAndPush rt n r s) = None \<and>
         activeServers (snd (startAndPush rt n r s)) = activeServers s @ [entryFor n r srv] \<and>
         sockets (snd (startAndPush rt n r s)) = sockets s @ [listenerOf (entryFor n r srv)])"
proof (cases "\<exists>srv. fst (startRoute rt r s) = Inr (Some srv)")
  case True
  then obtain srv where srv: "fst (startRoute rt r s) = Inr (Some srv)" by blast
  have "sockets (snd (startAndPush rt n r s)) = sockets (snd (startRoute rt r s))"
    by (simp add: startAndPush_def)
  with startRoute_Some[OF srv, of n] srv show ?thesis
    by (simp add: startAndPush_active startAndPush_fst)
next
  case False
  then show ?thesis
    by (auto simp: startAndPush_active split: sum.splits option.splits)
qed

lemma startLoop_step:
  "startLoop rt (r # rs) s =
     (if enabled r
      then (if fst (startAndPush rt (name r) r s) = None
            then startLoop rt rs (snd (startAndPush rt (name r) r s))
            else startAndPush rt (name r) r s)
      else startLoop rt rs s)"
  by (cases "startAndPush rt (name r) r s") (auto split: option.splits)

lemma startLoop_routes [simp]: "routes (snd (startLoop rt rs s)) = routes s"
  by (induction rs arbitrary: s) (simp_all add: startLoop_step del: startLoop.simps(2))

lemma subseq_member: "subseq xs ys \<Longrightarrow> x \<in> set xs \<Longrightarrow> x \<in> set ys"
  using list_emb_set[of "(=)" xs ys x] by blast

lemma startLoop_new:
  "\<exists>new. activeServers (snd (startLoop rt rs s)) = activeServers s @ new
        \<and> subseq (map descr new) (map descr (filter enabled rs))
        \<and> list_all (\<lambda>e. nextId s \<le> refId (server e) \<and> startable rt e
                         \<and> listenerOf e \<in> set (sockets (snd (startLoop rt rs s)))) new
        \<and> set (sockets s) \<subseteq> set (sockets (snd (startLoop rt rs s)))
        \<and> nextId s \<le> nextId (snd (startLoop rt rs s))"
proof (induction rs arbitrary: s)
  case Nil
  then show ?case by simp
next
  case (Cons r rs)
  define s1 where "s1 = snd (startAndPush rt (name r) r s)"
  have mono1: "nextId s \<le> nextId s1" "set (sockets s) \<subseteq> set (sockets s1)"
    using startAndPush_nextId[of s rt "name r" r] startAndPush_sockets[of rt "name r" r s]
    by (auto simp: s1_def)
  show ?case
  proof (cases "enabled r")
    case False
    with Cons.IH[of s] show ?thesis
      by (auto simp: startLoop_step simp del: startLoop.simps(2))
  next
    case en: True
    from startAndPush_cases[of rt "name r" r s] show ?thesis
    proof
      assume a: "activeServers (snd (startAndPush rt (name r) r s)) = activeServers s
                 \<and> (\<forall>srv. fst (startRoute rt r s) \<noteq> Inr (Some srv))"
      show ?thesis
      proof (cases "fst (startAndPush rt (name r) r s) = None")
        case True
        from Cons.IH[of s1] obtain new where
          new: "activeServers (snd (startLoop rt rs s1)) = activeServers s1 @ new"
            "subseq (map descr new) (map descr (filter enabled rs))"
            "list_all (\<lambda>e. nextId s1 \<le> refId (server e) \<and> startable rt e
                         \<and> listenerOf e \<in> set (sockets (snd (startLoop rt rs s1)))) new"
            "set (sockets s1) \<subseteq> set (sockets (snd (startLoop rt rs s1)))"
            "nextId s1 \<le> nextId (snd (startLoop rt rs s1))"
          by blast
        have l: "startLoop rt (r # rs) s = startLoop rt rs s1"
          using en True by (simp add: startLoop_step s1_def del: startLoop.simps(2))
        from new(3) mono1(1)
        have "list_all (\<lambda>e. nextId s \<le> refId (server e) \<and> startable rt e
                         \<and> listenerOf e \<in> set (sockets (snd (startLoop rt rs s1)))) new"
          by (auto simp: list_all_iff)
        with new a mono1 en show ?thesis
          unfolding l by (auto simp: s1_def intro: subseq_Cons')
      next
        case False
        then have l: "startLoop rt (r # rs) s = startAndPush rt (name r) r s"
          using en by (auto simp: startLoop_step simp del: startLoop.simps(2))
        from a mono1 show ?thesis
          unfolding l by (simp add: s1_def)
      qed
    next
      assume "\<exists>srv. fst (startRoute rt r s) = Inr (Some srv) \<and>
         fst (startAndPush rt (name r) r s) = None \<and>
         activeServers (snd (startAndPush rt (name r) r s)) =
           activeServers s @ [entryFor (name r) r srv] \<and>
         sockets (snd (startAndPush rt (name r) r s)) =
           sockets s @ [listenerOf (entryFor (name r) r srv)]"
      then obtain srv where srv: "fst (startRoute rt r s) = Inr (Some srv)"
        "fst (startAndPush rt (name r) r s) = None"
        "activeServers s1 = activeServers s @ [entryFor (name r) r srv]"
        "sockets s1 = sockets s @ [listenerOf (entryFor (name r) r srv)]"
        by (auto simp: s1_def)
      from startRoute_Some[OF srv(1), of "name r"] have ok: "startable rt r" "refId srv = nextId s"
        by simp_all
      from Cons.IH[of s1] obtain new where
        new: "activeServers (snd (startLoop rt rs s1)) = activeServers s1 @ new"
          "subseq (map descr new) (map descr (filter enabled rs))"
          "list_all (\<lambda>e. nextId s1 \<le> refId (server e) \<and> startable rt e
                       \<and> listenerOf e \<in> set (sockets (snd (startLoop rt rs s1)))) new"
          "set (sockets s1) \<subseteq> set (sockets (snd (startLoop rt rs s1)))"
          "nextId s1 \<le> nextId (snd (startLoop rt rs s1))"
        by blast
      have l: "startLoop rt (r # rs) s = startLoop rt rs s1"
        using en srv(2) by (simp add: startLoop_step s1_def del: startLoop.simps(2))
      from new(3) mono1(1)
      have fresh: "list_all (\<lambda>e. nextId s \<le> refId (server e) \<and> startable rt e
                       \<and> listenerOf e \<in> set (sockets (snd (startLoop rt rs s1)))) new"
        by (auto simp: list_all_iff)
      have here: "listenerOf (entryFor (name r) r srv) \<in> set (sockets (snd (startLoop rt rs s1)))"
        using new(4) srv(4) by auto
      have "activeServers (snd (startLoop rt rs s1)) =
              activeServers s @ (entryFor (name r) r srv # new)"
        using new(1) srv(3) by simp
      moreover have "subseq (map descr (entryFor (name r) r srv # new))
                      (map descr (filter enabled (r # rs)))"
        using en new(2) by simp
      moreover have "list_all (\<lambda>e. nextId s \<le> refId (server e) \<and> startable rt e
                       \<and> listenerOf e \<in> set (sockets (snd (startLoop rt rs s1))))
                      (entryFor (name r) r srv # new)"
        using fresh ok here by simp
      moreover have "set (sockets s) \<subseteq> set (sockets (snd (startLoop rt rs s1)))"
        using new(4) mono1(2) by blast
      moreover have "nextId s \<le> nextId (snd (startLoop rt rs s1))"
        using new(5) mono1(1) by simp
      ultimately show ?thesis
        unfolding l by blast
    qed
  qed
qed

lemma startLoop_keeps:
  "set (activeServers s) \<subseteq> set (activeServers (snd (startLoop rt rs s)))"
  using startLoop_new[of rt rs s] by auto

lemma startLoop_Cons_None:
  assumes "fst (startLoop rt (r # rs) s) = None"
  shows "(enabled r \<longrightarrow> fst (startAndPush rt (name r) r s) = None)
       \<and> startLoop rt (r # rs) s =
           startLoop rt rs (if enabled r then snd (startAndPush rt (name r) r s) else s)"
  using assms by (auto simp: startLoop_step simp del: startLoop.simps(2) split: if_splits)

lemma startLoop_noClash:
  "noClash (activeServers s) \<Longrightarrow> noClash (activeServers (snd (startLoop rt rs s)))"
proof (induction rs arbitrary: s)
  case Nil
  then show ?case by simp
next
  case (Cons r rs)
  define s1 where "s1 = snd (startAndPush rt (name r) r s)"
  have n1: "noClash (activeServers s1)"
    using startAndPush_cases[of rt "name r" r s]
  proof
    assume "activeServers (snd (startAndPush rt (name r) r s)) = activeServers s
                 \<and> (\<forall>srv. fst (startRoute rt r s) \<noteq> Inr (Some srv))"
    with Cons.prems show ?thesis by (simp add: s1_def)
  next
    assume "\<exists>srv. fst (startRoute rt r s) = Inr (Some srv) \<and>
         fst (startAndPush rt (name r) r s) = None \<and>
         activeServers (snd (startAndPush rt (name r) r s)) =
           activeServers s @ [entryFor (name r) r srv] \<and>
         sockets (snd (startAndPush rt (name r) r s)) =
           sockets s @ [listenerOf (entryFor (name r) r srv)]"
    then obtain srv where srv: "fst (startRoute rt r s) = Inr (Some srv)"
      "activeServers s1 = activeServers s @ [entryFor (name r) r srv]"
      by (auto simp: s1_def)
    from startRoute_Some[OF srv(1), of "name r"]
    have "\<not> list_ex (\<lambda>e. sameAddress e r) (activeServers s)" by simp
    with Cons.prems srv(2) show ?thesis
      by (simp add: noClash_append)
  qed
  show ?case
  proof (cases "enabled r \<and> fst (startAndPush rt (name r) r s) = None")
    case True
    with Cons.IH[OF n1] show ?thesis
      by (simp add: startLoop_step s1_def del: startLoop.simps(2))
  next
    case False
    with Cons.IH[OF Cons.prems] n1 show ?thesis
      by (auto simp: startLoop_step s1_def simp del: startLoop.simps(2))
  qed
qed

lemma startLoop_returns:
  "list_all (\<lambda>r. enabled r \<longrightarrow> nameConverts r) rs \<Longrightarrow> fst (startLoop rt rs s) = None"
proof (induction rs arbitrary: s)
  case Nil
  then show ?case by simp
next
  case (Cons r rs)
  then show ?case
    by (auto simp: startLoop_step nameConverts_def startAndPush_returns
        simp del: startLoop.simps(2))
qed

lemma startLoop_socket_ids:
  "p \<in> set (sockets (snd (startLoop rt rs s))) \<Longrightarrow> p \<in> set (sockets s) \<or> nextId s \<le> fst p"
proof (induction rs arbitrary: s)
  case Nil
  then show ?case by simp
next
  case (Cons r rs)
  define s1 where "s1 = snd (startAndPush rt (name r) r s)"
  have a: "q \<in> set (sockets s1) \<Longrightarrow> q \<in> set (sockets s) \<or> nextId s \<le> fst q" for q
    using startAndPush_sockets[of rt "name r" r s] by (auto simp: s1_def)
  have b: "nextId s \<le> nextId s1"
    using startAndPush_nextId[of s rt "name r" r] by (simp add: s1_def)
  have "startLoop rt (r # rs) s = startLoop rt rs s
      \<or> startLoop rt (r # rs) s = startLoop rt rs s1
      \<or> startLoop rt (r # rs) s = startAndPush rt (name r) r s"
    by (simp add: startLoop_step s1_def del: startLoop.simps(2))
  then consider (skip) "startLoop rt (r # rs) s = startLoop rt rs s"
    | (go) "startLoop rt (r # rs) s = startLoop rt rs s1"
    | (stop) "startLoop rt (r # rs) s = startAndPush rt (name r) r s"
    by blast
  then show ?case
  proof cases
    case skip
    with Cons.prems Cons.IH[of s] show ?thesis by simp
  next
    case go
    with Cons.prems have "p \<in> set (sockets (snd (startLoop rt rs s1)))" by simp
    from Cons.IH[OF this] have "p \<in> set (sockets s1) \<or> nextId s1 \<le> fst p" .
    with a[of p] b show ?thesis by auto
  next
    case stop
    with Cons.prems have "p \<in> set (sockets s1)" by (simp add: s1_def)
    with a[of p] show ?thesis by simp
  qed
qed

lemma startLoop_append:
  "fst (startLoop rt xs s) = None \<Longrightarrow>
     startLoop rt (xs @ ys) s = startLoop rt ys (snd (startLoop rt xs s))"
proof (induction xs arbitrary: s)
  case Nil
  then show ?case by simp
next
  case (Cons r xs)
  define s1 where "s1 = (if enabled r then snd (startAndPush rt (name r) r s) else s)"
  from startLoop_Cons_None[OF Cons.prems]
  have a: "enabled r \<longrightarrow> fst (startAndPush rt (name r) r s) = None"
    and b: "startLoop rt (r # xs) s = startLoop rt xs s1"
    by (simp_all add: s1_def)
  from Cons.prems b have "fst (startLoop rt xs s1) = None" by simp
  from Cons.IH[OF this] have "startLoop rt (xs @ ys) s1 = startLoop rt ys (snd (startLoop rt xs s1))" .
  moreover have "startLoop rt ((r # xs) @ ys) s = startLoop rt (xs @ ys) s1"
    using a by (simp add: startLoop_step s1_def del: startLoop.simps(2))
  ultimately show ?case
    by (simp only: b)
qed

lemma startLoop_prefix_None:
  "fst (startLoop rt (xs @ ys) s) = None \<Longrightarrow> fst (startLoop rt xs s) = None"
proof (induction xs arbitrary: s)
  case Nil
  then show ?case by simp
next
  case (Cons r xs)
  then show ?case
    by (auto simp: startLoop_step simp del: startLoop.simps(2) split: if_splits)
qed

lemma startLoop_isolation:
  assumes ret: "fst (startLoop rt (pre @ r # post) s) = None"
    and en: "enabled r" and ok: "startable rt r"
    and pre: "\<forall>r'\<in>set pre. enabled r' \<longrightarrow> \<not> sameAddress r' r"
    and act: "\<not> list_ex (\<lambda>e. sameAddress e r) (activeServers s)"
  shows "\<exists>e\<in>set (activeServers (snd (startLoop rt (pre @ r # post) s))). descr e = descr r"
proof -
  define s1 where "s1 = snd (startLoop rt pre s)"
  from startLoop_prefix_None[OF ret] have p0: "fst (startLoop rt pre s) = None" .
  from startLoop_new[of rt pre s] obtain new where
    new: "activeServers s1 = activeServers s @ new"
      "subseq (map descr new) (map descr (filter enabled pre))"
    unfolding s1_def by blast
  have "\<not> sameAddress e r" if "e \<in> set new" for e
  proof -
    from that have "descr e \<in> set (map descr new)" by simp
    with new(2) have "descr e \<in> set (map descr (filter enabled pre))"
      by (rule subseq_member)
    then obtain r' where r': "r' \<in> set pre" "enabled r'" "descr e = descr r'"
      by auto
    from pre r'(1,2) have "\<not> sameAddress r' r" by blast
    with sameAddress_descr[OF r'(3), of r] show ?thesis by simp
  qed
  with act new(1) have free: "\<not> list_ex (\<lambda>e. sameAddress e r) (activeServers s1)"
    by (auto simp: list_ex_iff)
  from startRoute_succeeds[OF ok free] obtain srv where
    srv: "fst (startRoute rt r s1) = Inr (Some srv)" by blast
  define s2 where "s2 = snd (startAndPush rt (name r) r s1)"
  from srv have in2: "entryFor (name r) r srv \<in> set (activeServers s2)"
    and f2: "fst (startAndPush rt (name r) r s1) = None"
    by (simp_all add: startAndPush_active startAndPush_fst s2_def)
  have "startLoop rt (pre @ r # post) s = startLoop rt (r # post) s1"
    using startLoop_append[OF p0] by (simp add: s1_def)
  also have "\<dots> = startLoop rt post s2"
    using en f2 by (simp add: startLoop_step s2_def del: startLoop.simps(2))
  finally have "startLoop rt (pre @ r # post) s = startLoop rt post s2" .
  with in2 startLoop_keeps[of s2 rt post]
  have "entryFor (name r) r srv \<in> set (activeServers (snd (startLoop rt (pre @ r # post) s)))"
    by auto
  then show ?thesis
    by (metis descr_entryFor)
qed

lemma startLoop_winners:
  assumes "fst (startLoop rt rs s) = None"
    and "\<And>x::route. startable rt x \<Longrightarrow>
             list_ex (\<lambda>e. sameAddress e x) (activeServers s) =
             list_ex (\<lambda>r'. enabled r' \<and> startable rt r' \<and> sameAddress r' x) prev"
  shows "\<exists>new. activeServers (snd (startLoop rt rs s)) = activeServers s @ new
             \<and> map descr new = map descr (winners rt prev rs)"
  using assms
proof (induction rs arbitrary: s prev)
  case Nil
  then show ?case by simp
next
  case (Cons r rs)
  define s1 where "s1 = (if enabled r then snd (startAndPush rt (name r) r s) else s)"
  define win where "win = (enabled r \<and> startable rt r \<and>
         \<not> list_ex (\<lambda>r'. enabled r' \<and> startable rt r' \<and> sameAddress r' r) prev)"
  from startLoop_Cons_None[OF Cons.prems(1)]
  have ret1: "enabled r \<longrightarrow> fst (startAndPush rt (name r) r s) = None"
    and loop: "startLoop rt (r # rs) s = startLoop rt rs s1"
    by (simp_all add: s1_def)
  have started: "enabled r \<Longrightarrow> (\<exists>srv. fst (startRoute rt r s) = Inr (Some srv)) = win"
    unfolding win_def using Cons.prems(2)[of r] startRoute_iff[of rt r s] by blast
  have act1: "\<exists>ext. activeServers s1 = activeServers s @ ext
                \<and> map descr ext = (if win then [descr r] else [])"
  proof (cases "enabled r")
    case False
    then show ?thesis by (simp add: s1_def win_def)
  next
    case True
    from startAndPush_cases[of rt "name r" r s] show ?thesis
    proof
      assume "activeServers (snd (startAndPush rt (name r) r s)) = activeServers s
                 \<and> (\<forall>srv. fst (startRoute rt r s) \<noteq> Inr (Some srv))"
      with started[OF True] True show ?thesis by (simp add: s1_def)
    next
      assume "\<exists>srv. fst (startRoute rt r s) = Inr (Some srv) \<and>
         fst (startAndPush rt (name r) r s) = None \<and>
         activeServers (snd (startAndPush rt (name r) r s)) =
           activeServers s @ [entryFor (name r) r srv] \<and>
         sockets (snd (startAndPush rt (name r) r s)) =
           sockets s @ [listenerOf (entryFor (name r) r srv)]"
      with started[OF True] True show ?thesis by (auto simp: s1_def)
    qed
  qed
  then obtain ext where ext: "activeServers s1 = activeServers s @ ext"
    "map descr ext = (if win then [descr r] else [])" by blast
  have ext_ex: "list_ex (\<lambda>e. sameAddress e x) ext = (win \<and> sameAddress r x)" for x :: route
  proof (cases win)
    case True
    with ext(2) obtain e1 where e1: "ext = [e1]" "descr e1 = descr r"
      by (cases ext) auto
    from sameAddress_descr[OF e1(2), of x] True e1(1) show ?thesis by simp
  next
    case False
    with ext(2) show ?thesis by simp
  qed
  have inv: "list_ex (\<lambda>e. sameAddress e x) (activeServers s1) =
             list_ex (\<lambda>r'. enabled r' \<and> startable rt r' \<and> sameAddress r' x) (prev @ [r])"
    if x: "startable rt x" for x :: route
  proof (cases win)
    case True
    then have "enabled r" "startable rt r" by (simp_all add: win_def)
    with True show ?thesis
      using Cons.prems(2)[OF x] by (simp add: ext(1) ext_ex)
  next
    case False
    show ?thesis
    proof (cases "enabled r \<and> startable rt r \<and> sameAddress r x")
      case no: False
      then show ?thesis using False Cons.prems(2)[OF x] by (auto simp: ext(1) ext_ex)
    next
      case yes: True
      with False have "list_ex (\<lambda>r'. enabled r' \<and> startable rt r' \<and> sameAddress r' r) prev"
        by (simp add: win_def)
      with Cons.prems(2)[of r] yes have "list_ex (\<lambda>e. sameAddress e r) (activeServers s)"
        by simp
      then obtain e where "e \<in> set (activeServers s)" "sameAddress e r"
        by (auto simp: list_ex_iff)
      with yes have "list_ex (\<lambda>e. sameAddress e x) (activeServers s)"
        by (auto simp: list_ex_iff intro: sameAddress_trans)
      with False yes show ?thesis using Cons.prems(2)[OF x] by (simp add: ext(1) ext_ex)
    qed
  qed
  from Cons.prems(1) loop have "fst (startLoop rt rs s1) = None" by simp
  from Cons.IH[of s1 "prev @ [r]", OF this inv] obtain new where
    new: "activeServers (snd (startLoop rt rs s1)) = activeServers s1 @ new"
      "map descr new = map descr (winners rt (prev @ [r]) rs)"
    by blast
  have wins: "winners rt prev (r # rs) =
      (if win then r # winners rt (prev @ [r]) rs else winners rt (prev @ [r]) rs)"
    by (simp add: win_def)
  have "activeServers (snd (startLoop rt (r # rs) s)) = activeServers s @ (ext @ new)"
    unfolding loop using new(1) ext(1) by simp
  moreover have "map descr (ext @ new) = map descr (winners rt prev (r # rs))"
    unfolding wins using new(2) ext(2) by simp
  ultimately show ?case by blast
qed

lemma isOpen_iff: "isOpen h s = (h \<in> fst ` set (sockets s))"
  by (simp add: isOpen_def map_of_eq_None_iff)

lemma dgramClose_fields [simp]:
  "routes (snd (dgramClose h s)) = routes s"
  "nextId (snd (dgramClose h s)) = nextId s"
  "activeServers (snd (dgramClose h s)) = activeServers s"
  by (simp_all add: dgramClose_def dropSocket_def)

lemma dgramClose_sockets: "set (sockets (snd (dgramClose h s))) \<subseteq> set (sockets s)"
  by (auto simp: dgramClose_def dropSocket_def)

lemma clearTimeout_fields [simp]:
  "routes (clearTimeout t s) = routes s"
  "nextId (clearTimeout t s) = nextId s"
  "activeServers (clearTimeout t s) = activeServers s"
  "sockets (clearTimeout t s) = sockets s"
  by (simp_all add: clearTimeout_def)

lemma closeClients_step:
  "snd (closeClients (kc # cs) s) =
     snd (dgramClose (socket (snd kc)) (clearTimeout (timeout (snd kc)) s)) \<or>
   snd (closeClients (kc # cs) s) =
     snd (closeClients cs (snd (dgramClose (socket (snd kc)) (clearTimeout (timeout (snd kc)) s))))"
  by (simp add: split_beta split: option.splits)

lemma closeClients_inv:
  "routes (snd (closeClients cs s)) = routes s \<and>
   nextId (snd (closeClients cs s)) = nextId s \<and>
   activeServers (snd (closeClients cs s)) = activeServers s"
proof (induction cs arbitrary: s)
  case Nil
  show ?case by simp
next
  case (Cons kc cs)
  define s1 where "s1 = snd (dgramClose (socket (snd kc)) (clearTimeout (timeout (snd kc)) s))"
  have f: "routes s1 = routes s" "nextId s1 = nextId s" "activeServers s1 = activeServers s"
    by (simp_all add: s1_def)
  from closeClients_step[of kc cs s]
  have "snd (closeClients (kc # cs) s) = s1 \<or>
        snd (closeClients (kc # cs) s) = snd (closeClients cs s1)"
    by (simp only: s1_def)
  then show ?case
  proof
    assume "snd (closeClients (kc # cs) s) = s1"
    with f show ?thesis by (simp only:)
  next
    assume "snd (closeClients (kc # cs) s) = snd (closeClients cs s1)"
    with f Cons.IH[of s1] show ?thesis by (simp only:)
  qed
qed

lemma closeClients_fields [simp]:
  "routes (snd (closeClients cs s)) = routes s"
  "nextId (snd (closeClients cs s)) = nextId s"
  "activeServers (snd (closeClients cs s)) = activeServers s"
  using closeClients_inv[of cs s] by blast+

lemma closeClients_sockets: "set (sockets (snd (closeClients cs s))) \<subseteq> set (sockets s)"
proof (induction cs arbitrary: s)
  case Nil
  show ?case by simp
next
  case (Cons kc cs)
  define s1 where "s1 = snd (dgramClose (socket (snd kc)) (clearTimeout (timeout (snd kc)) s))"
  have sub: "set (sockets s1) \<subseteq> set (sockets s)"
    unfolding s1_def
    using dgramClose_sockets[of "socket (snd kc)" "clearTimeout (timeout (snd kc)) s"]
    by simp
  from closeClients_step[of kc cs s]
  have "snd (closeClients (kc # cs) s) = s1 \<or>
        snd (closeClients (kc # cs) s) = snd (closeClients cs s1)"
    by (simp only: s1_def)
  then show ?case
  proof
    assume "snd (closeClients (kc # cs) s) = s1"
    with sub show ?thesis by (simp only:)
  next
    assume "snd (closeClients (kc # cs) s) = snd (closeClients cs s1)"
    with sub Cons.IH[of s1] show ?thesis by (simp only:)
  qed
qed

lemma callClose_sockets: "set (sockets (snd (callClose x s))) \<subseteq> set (sockets s)"
  by (cases x) (auto simp: netClose_def dgramClose_def dropSocket_def)

lemma callClose_active [simp]: "activeServers (snd (callClose x s)) = activeServers s"
  by (cases x) (simp_all add: netClose_def dgramClose_def dropSocket_def)

lemma stopBody_fields [simp]:
  "routes (snd (stopBody e s)) = routes s"
  "nextId (snd (stopBody e s)) = nextId s"
  "activeServers (snd (stopBody e s)) = activeServers s"
  by (simp_all add: stopBody_def split_beta split: option.splits)

lemma stopBody_sockets: "set (sockets (snd (stopBody e s))) \<subseteq> set (sockets s)"
proof -
  have "set (sockets (snd (callClose (server e) (snd (closeClients cs s))))) \<subseteq> set (sockets s)"
    for cs
    using callClose_sockets[of "server e" "snd (closeClients cs s)"] closeClients_sockets[of cs s]
    by blast
  then show ?thesis
    using callClose_sockets[of "server e" s] closeClients_sockets[of _ s]
    by (simp add: stopBody_def split_beta split: option.splits)
qed

lemma stopOne_snd:
  "snd (stopOne e s) = snd (stopBody e s) \<or>
   snd (stopOne e s) = log LError ''Failed to stop proxy'' (snd (stopBody e s)) \<or>
   snd (stopOne e s) = log LInfo ''Stopped proxy'' (snd (stopBody e s))"
  by (simp add: stopOne_def split_beta split: option.splits)

lemma stopOne_fields [simp]:
  "routes (snd (stopOne e s)) = routes s"
  "nextId (snd (stopOne e s)) = nextId s"
  "activeServers (snd (stopOne e s)) = activeServers s"
  using stopOne_snd[of e s] by auto

lemma stopOne_sockets: "set (sockets (snd (stopOne e s))) \<subseteq> set (sockets s)"
  using stopOne_snd[of e s] stopBody_sockets[of e s] by auto

lemma stopOne_fst: "fst (stopOne e s) = (if stopMessageThrows e then Some TypeError else None)"
  by (simp add: stopOne_def split_beta split: option.splits)

lemma stopLoop_step:
  "stopLoop (e # es) s =
     (if stopMessageThrows e then (Some TypeError, snd (stopOne e s))
      else stopLoop es (snd (stopOne e s)))"
  using stopOne_fst[of e s] by (cases "stopOne e s") auto

lemma stopLoop_fields [simp]:
  "routes (snd (stopLoop es s)) = routes s"
  "nextId (snd (stopLoop es s)) = nextId s"
  "activeServers (snd (stopLoop es s)) = activeServers s"
  by (induction es arbitrary: s) (simp_all add: stopLoop_step del: stopLoop.simps(2))

lemma stopLoop_sockets: "set (sockets (snd (stopLoop es s))) \<subseteq> set (sockets s)"
proof (induction es arbitrary: s)
  case Nil
  show ?case by simp
next
  case (Cons e es)
  from Cons.IH[of "snd (stopOne e s)"] stopOne_sockets[of e s] show ?case
    by (auto simp: stopLoop_step simp del: stopLoop.simps(2))
qed

lemma stopLoop_fst:
  "(fst (stopLoop es s) = None) = list_all (\<lambda>e. \<not> stopMessageThrows e) es"
  by (induction es arbitrary: s) (simp_all add: stopLoop_step del: stopLoop.simps(2))

lemma stopOne_closes_tcp:
  assumes "protocol e = JStr ''tcp''" and "server e = NetServer h"
  shows "\<not> isOpen h (snd (stopOne e s))"
proof -
  have "stopBody e s = (None, dropSocket h s)"
    using assms by (simp add: stopBody_def netClose_def)
  then have "\<not> isOpen h (snd (stopBody e s))"
    by (auto simp: isOpen_iff dropSocket_def)
  with stopOne_snd[of e s] show ?thesis
    by (auto simp: isOpen_iff)
qed

lemma stopLoop_closes_tcp:
  assumes "fst (stopLoop es s) = None" and "e \<in> set es"
    and "protocol e = JStr ''tcp''" and "server e = NetServer h"
  shows "\<not> isOpen h (snd (stopLoop es s))"
  using assms(1,2)
proof (induction es arbitrary: s)
  case Nil
  then show ?case by simp
next
  case (Cons a es)
  from Cons.prems(1) have nt: "\<not> stopMessageThrows a"
    and rest: "fst (stopLoop es (snd (stopOne a s))) = None"
    and eq: "stopLoop (a # es) s = stopLoop es (snd (stopOne a s))"
    by (auto simp: stopLoop_step simp del: stopLoop.simps(2) split: if_splits)
  show ?case
  proof (cases "e \<in> set es")
    case True
    from Cons.IH[OF rest True] eq show ?thesis by simp
  next
    case False
    with Cons.prems(2) have "a = e" by simp
    with stopOne_closes_tcp[OF assms(3,4), of s]
    have "\<not> isOpen h (snd (stopOne a s))" by simp
    with stopLoop_sockets[of es "snd (stopOne a s)"] eq show ?thesis
      by (auto simp: isOpen_iff)
  qed
qed

lemma stopAllProxies_fst: "fst (stopAllProxies s) = fst (stopLoop (activeServers s) s)"
  by (simp add: stopAllProxies_def split_beta split: option.splits)

lemma stopAllProxies_fields [simp]:
  "routes (snd (stopAllProxies s)) = routes s"
  "nextId (snd (stopAllProxies s)) = nextId s"
  "sockets (snd (stopAllProxies s)) = sockets (snd (stopLoop (activeServers s) s))"
  by (simp_all add: stopAllProxies_def split_beta split: option.splits)

lemma stopAllProxies_active:
  "fst (stopAllProxies s) = None \<Longrightarrow> activeServers (snd (stopAllProxies s)) = []"
  by (simp add: stopAllProxies_def split_beta split: option.splits)

lemma stopAllProxies_throws_active:
  "fst (stopAllProxies s) \<noteq> None \<Longrightarrow> activeServers (snd (stopAllProxies s)) = activeServers s"
  by (simp add: stopAllProxies_def split_beta split: option.splits)

lemma startAllProxies_alt:
  "startAllProxies rt s =
     (if fst (stopAllProxies s) \<noteq> None then stopAllProxies s
      else if fst (startLoop rt (routes s) (snd (stopAllProxies s))) \<noteq> None
           then startLoop rt (routes s) (snd (stopAllProxies s))
      else (None, log LInfo ''Started proxies''
                    (snd (startLoop rt (routes s) (snd (stopAllProxies s))))))"
proof -
  obtain x s1 where s1: "stopAllProxies s = (x, s1)" by (cases "stopAllProxies s")
  from stopAllProxies_fields(1)[of s] s1 have r: "routes s1 = routes s" by simp
  obtain y s2 where s2: "startLoop rt (routes s) s1 = (y, s2)"
    by (cases "startLoop rt (routes s) s1")
  show ?thesis
    by (cases x; cases y) (simp_all add: startAllProxies_def s1 r s2)
qed

lemma startAllProxies_fst:
  "(fst (startAllProxies rt s) = None) =
     (fst (stopAllProxies s) = None \<and>
      fst (startLoop rt (routes s) (snd (stopAllProxies s))) = None)"
  by (cases "fst (stopAllProxies s)";
      cases "fst (startLoop rt (routes s) (snd (stopAllProxies s)))")
     (simp_all add: startAllProxies_alt)

lemma startAllProxies_snd:
  "fst (startAllProxies rt s) = None \<Longrightarrow>
     snd (startAllProxies rt s) =
       log LInfo ''Started proxies'' (snd (startLoop rt (routes s) (snd (stopAllProxies s))))"
  by (simp add: startAllProxies_alt split: if_splits)

lemma startAllProxies_routes [simp]: "routes (snd (startAllProxies rt s)) = routes s"
  by (simp add: startAllProxies_alt)

lemma startAllProxies_returns:
  assumes "list_all (\<lambda>e. \<not> stopMessageThrows e) (activeServers s)"
    and "list_all (\<lambda>r. enabled r \<longrightarrow> nameConverts r) (routes s)"
  shows "fst (startAllProxies rt s) = None"
  using assms startLoop_returns[of "routes s" rt "snd (stopAllProxies s)"]
  by (simp add: startAllProxies_fst stopAllProxies_fst stopLoop_fst)

lemma startAllProxies_active:
  "fst (startAllProxies rt s) = None \<Longrightarrow>
     activeServers (snd (startAllProxies rt s)) =
       activeServers (snd (startLoop rt (routes s) (snd (stopAllProxies s))))"
  by (simp add: startAllProxies_snd)

lemma startAllProxies_winners:
  assumes "fst (startAllProxies rt s) = None"
  shows "map descr (activeServers (snd (startAllProxies rt s))) = map descr (winners rt [] (routes s))"
proof -
  from assms have r: "fst (stopAllProxies s) = None"
    "fst (startLoop rt (routes s) (snd (stopAllProxies s))) = None"
    by (simp_all add: startAllProxies_fst)
  from stopAllProxies_active[OF r(1)]
  have e: "activeServers (snd (stopAllProxies s)) = []" .
  from startLoop_winners[of rt "routes s" "snd (stopAllProxies s)" "[]", OF r(2)] e
  show ?thesis
    by (auto simp: startAllProxies_active[OF assms])
qed

lemma startAllProxies_noClash:
  assumes "fst (stopAllProxies s) = None"
  shows "noClash (activeServers (snd (startAllProxies rt s)))"
proof -
  from stopAllProxies_active[OF assms]
  have e: "noClash (activeServers (snd (stopAllProxies s)))" by simp
  from startLoop_noClash[OF e, of rt "routes s"] assms show ?thesis
    by (simp add: startAllProxies_alt)
qed

lemma startAllProxies_new:
  assumes "fst (startAllProxies rt s) = None"
  shows "subseq (map descr (activeServers (snd (startAllProxies rt s))))
           (map descr (filter enabled (routes s)))
   \<and> list_all (\<lambda>e. nextId s \<le> refId (server e) \<and> startable rt e
                   \<and> listenerOf e \<in> set (sockets (snd (startAllProxies rt s))))
        (activeServers (snd (startAllProxies rt s)))"
proof -
  from assms have r: "fst (stopAllProxies s) = None"
    by (simp add: startAllProxies_fst)
  from stopAllProxies_active[OF r]
  have e: "activeServers (snd (stopAllProxies s)) = []" .
  from startLoop_new[of rt "routes s" "snd (stopAllProxies s)"] e
  show ?thesis
    by (auto simp: startAllProxies_snd[OF assms])
qed

lemma startAllProxies_isolation:
  assumes "fst (startAllProxies rt s) = None"
    and "routes s = pre @ r # post" and "enabled r" and "startable rt r"
    and "\<forall>r'\<in>set pre. enabled r' \<longrightarrow> \<not> sameAddress r' r"
  shows "\<exists>e\<in>set (activeServers (snd (startAllProxies rt s))). descr e = descr r"
proof -
  from assms(1) have r: "fst (stopAllProxies s) = None"
    "fst (startLoop rt (routes s) (snd (stopAllProxies s))) = None"
    by (simp_all add: startAllProxies_fst)
  from stopAllProxies_active[OF r(1)]
  have e: "\<not> list_ex (\<lambda>e. sameAddress e r) (activeServers (snd (stopAllProxies s)))" by simp
  from r(2) assms(2) have "fst (startLoop rt (pre @ r # post) (snd (stopAllProxies s))) = None"
    by simp
  from startLoop_isolation[OF this assms(3,4,5) e] assms(2) show ?thesis
    by (simp add: startAllProxies_active[OF assms(1)])
qed

lemma startAllProxies_closes_tcp:
  assumes ret: "fst (startAllProxies rt s) = None"
    and e: "e \<in> set (activeServers s)" "protocol e = JStr ''tcp''" "server e = NetServer h"
    and old: "h < nextId s"
  shows "\<not> isOpen h (snd (startAllProxies rt s))"
proof
  assume "isOpen h (snd (startAllProxies rt s))"
  then obtain i where
    "(h, i) \<in> set (sockets (snd (startLoop rt (routes s) (snd (stopAllProxies s)))))"
    by (auto simp: isOpen_iff startAllProxies_snd[OF ret])
  from startLoop_socket_ids[OF this] old
  have "(h, i) \<in> set (sockets (snd (stopLoop (activeServers s) s)))" by simp
  then have op: "isOpen h (snd (stopLoop (activeServers s) s))"
    by (force simp: isOpen_iff)
  from ret have "fst (stopLoop (activeServers s) s) = None"
    by (simp add: startAllProxies_fst stopAllProxies_fst)
  from stopLoop_closes_tcp[OF this e] op show False by simp
qed

lemma startRoute_fails_sockets:
  "\<forall>srv. fst (startRoute rt r s) \<noteq> Inr (Some srv) \<Longrightarrow>
     sockets (snd (startRoute rt r s)) = sockets s"
  by (auto simp: startRoute_def startTcpProxy_def startUdpProxy_def Let_def split: if_splits)

lemma startAndPush_exact:
  "\<exists>ext. activeServers (snd (startAndPush rt n r s)) = activeServers s @ ext
        \<and> sockets (snd (startAndPush rt n r s)) = sockets s @ map listenerOf ext"
proof -
  have sk: "sockets (snd (startAndPush rt n r s)) = sockets (snd (startRoute rt r s))"
    by (simp add: startAndPush_def)
  from startAndPush_cases[of rt n r s] show ?thesis
  proof
    assume a: "activeServers (snd (startAndPush rt n r s)) = activeServers s
                 \<and> (\<forall>srv. fst (startRoute rt r s) \<noteq> Inr (Some srv))"
    with startRoute_fails_sockets[of rt r s] sk
    have "activeServers (snd (startAndPush rt n r s)) = activeServers s @ []
        \<and> sockets (snd (startAndPush rt n r s)) = sockets s @ map listenerOf []"
      by simp
    then show ?thesis by blast
  next
    assume "\<exists>srv. fst (startRoute rt r s) = Inr (Some srv) \<and>
         fst (startAndPush rt n r s) = None \<and>
         activeServers (snd (startAndPush rt n r s)) = activeServers s @ [entryFor n r srv] \<and>
         sockets (snd (startAndPush rt n r s)) = sockets s @ [listenerOf (entryFor n r srv)]"
    then obtain srv where
      "activeServers (snd (startAndPush rt n r s)) = activeServers s @ [entryFor n r srv]
       \<and> sockets (snd (startAndPush rt n r s)) = sockets s @ map listenerOf [entryFor n r srv]"
      by auto
    then show ?thesis by blast
  qed
qed

lemma startLoop_exact:
  "\<exists>new. activeServers (snd (startLoop rt rs s)) = activeServers s @ new
        \<and> sockets (snd (startLoop rt rs s)) = sockets s @ map listenerOf new"
proof (induction rs arbitrary: s)
  case Nil
  show ?case by simp
next
  case (Cons r rs)
  define s1 where "s1 = snd (startAndPush rt (name r) r s)"
  from startAndPush_exact[of rt "name r" r s] obtain ext where
    ext: "activeServers s1 = activeServers s @ ext" "sockets s1 = sockets s @ map listenerOf ext"
    unfolding s1_def by blast
  have "startLoop rt (r # rs) s = startLoop rt rs s \<or>
        snd (startLoop rt (r # rs) s) = s1 \<or>
        startLoop rt (r # rs) s = startLoop rt rs s1"
    by (simp add: startLoop_step s1_def del: startLoop.simps(2))
  then consider
      (skip) "startLoop rt (r # rs) s = startLoop rt rs s"
    | (stop) "snd (startLoop rt (r # rs) s) = s1"
    | (go) "startLoop rt (r # rs) s = startLoop rt rs s1"
    by blast
  then show ?case
  proof cases
    case skip
    with Cons.IH[of s] show ?thesis by (simp only:)
  next
    case stop
    with ext show ?thesis by (simp only:) blast
  next
    case go
    from Cons.IH[of s1] obtain new where
      "activeServers (snd (startLoop rt rs s1)) = activeServers s1 @ new"
      "sockets (snd (startLoop rt rs s1)) = sockets s1 @ map listenerOf new"
      by blast
    with ext have
      "activeServers (snd (startLoop rt rs s1)) = activeServers s @ (ext @ new)
       \<and> sockets (snd (startLoop rt rs s1)) = sockets s @ map listenerOf (ext @ new)"
      by simp
    with go show ?thesis by (simp only:) blast
  qed
qed

lemma startAllProxies_sockets:
  assumes "fst (stopAllProxies s) = None"
  shows "sockets (snd (startAllProxies rt s)) =
           sockets (snd (stopAllProxies s)) @
           map listenerOf (activeServers (snd (startAllProxies rt s)))"
proof -
  from stopAllProxies_active[OF assms]
  have e: "activeServers (snd (stopAllProxies s)) = []" .
  from startLoop_exact[of rt "routes s" "snd (stopAllProxies s)"] e
  have "sockets (snd (startLoop rt (routes s) (snd (stopAllProxies s)))) =
          sockets (snd (stopAllProxies s)) @
          map listenerOf (activeServers (snd (startLoop rt (routes s) (snd (stopAllProxies s)))))"
    by auto
  with assms show ?thesis
    by (simp add: startAllProxies_alt)
qed

lemma startAllProxies_keeps_noClash:
  assumes "noClash (activeServers s)"
  shows "noClash (activeServers (snd (startAllProxies rt s)))"
proof (cases "fst (stopAllProxies s) = None")
  case True
  then show ?thesis by (rule startAllProxies_noClash)
next
  case False
  with assms show ?thesis
    by (simp add: startAllProxies_alt stopAllProxies_throws_active)
qed

lemma stateARun_eval:
  "startAllProxies rt0 stateARun =
     (None,
      \<lparr>routes = [routeA, routeB, routeC],
       activeServers = [entryFor (JStr ''a'') routeA (NetServer 1),
                        entryFor (JStr ''c'') routeC (Wrapper 2)],
       nextId = 3,
       sockets = [(1, TcpListener (listen routeA) (forward routeA)),
                  (2, UdpListener (listen routeC) (forward routeC))],
       clients = [(2, [])], timers = [], sent = [], saved = [],
       logs = [(LInfo, ''Stopped proxy''),
               (LWarn, ''TCP proxy cannot start: Address already in use''),
               (LInfo, ''Started proxies'')]\<rparr>)"
  by (simp add: stateARun_def stateA_def startAllProxies_def stopAllProxies_def stopOne_def
      stopBody_def netClose_def dropSocket_def state0_def Let_def
      startAndPush_def startRoute_def startTcpProxy_def startUdpProxy_def pushActive_def
      collides_def sameListen_def entryFor_def
      routeA_def routeB_def routeC_def mkRoute_def rt0_def log_def)

section \<open>One listener per address\<close>

text \<open>
  A start that throws on an address in use. In \<open>stateA\<close> the listener of \<open>routeA\<close>
  runs on \<^verbatim>\<open>tcp 0.0.0.0:80\<close>. \<open>routeX\<close> has that address and the name
  \<^verbatim>\<open>{"toString": 1}\<close>, which the control plane accepts. The scan finds the collision;
  the warning is built from \<^verbatim>\<open>${route.name}\<close> (line 78), which throws a
  \<^verbatim>\<open>TypeError\<close>: the start does not return, and no warning is logged.
\<close>

theorem address_in_use_counterexample:
  "activeServers stateA = [entryFor (JStr ''a'') routeA (NetServer 0)]
   \<and> sameAddress (entryFor (JStr ''a'') routeA (NetServer 0)) routeX
   \<and> startRoute rt0 routeX stateA = (Inl TypeError, stateA)
   \<and> logs (snd (startRoute rt0 routeX stateA)) = []"
  by (simp add: stateA_def state0_def sameAddress_def entryFor_def routeA_def routeX_def
      mkRoute_def exoticName_def startRoute_def startTcpProxy_def collides_def sameListen_def)

text \<open>
  C5, as amended. When an entry of \<^verbatim>\<open>activeServers\<close> has the protocol, the listen
  host and the listen port of a route (equal under \<^verbatim>\<open>===\<close>, as the scan compares
  them), the start of that route creates no socket, so no bind is attempted, allocates
  nothing, and leaves the active set as it was, with the earlier listener in it. When the
  name of the route converts to a string the start returns no listener and logs a
  warning; when it does not, the start throws a \<^verbatim>\<open>TypeError\<close> in the state it was
  called in, and nothing is logged. After \<^verbatim>\<open>startAllProxies\<close> no two entries of the
  active set have the same protocol, listen host and listen port, whenever the stop of
  the pass completed or no two entries had before; and when the stop completed, the
  sockets after the pass are those the stop left open followed by exactly one listening
  socket for each entry of the active set, in order.
\<close>

theorem address_in_use_refused:
  "(e \<in> set (activeServers s) \<and> sameAddress e r \<and>
      (protocol r = JStr ''tcp'' \<or> protocol r = JStr ''udp'') \<longrightarrow>
        startRoute rt r s =
          (if toStringThrows (name r) then (Inl TypeError, s)
           else (Inr None,
                 log LWarn
                   (if protocol r = JStr ''tcp''
                    then ''TCP proxy cannot start: Address already in use''
                    else ''UDP proxy cannot start: Address already in use'') s))
      \<and> sockets (snd (startRoute rt r s)) = sockets s
      \<and> nextId (snd (startRoute rt r s)) = nextId s
      \<and> activeServers (snd (startAndPush rt n r s)) = activeServers s)
   \<and> (fst (stopAllProxies s) = None \<or> noClash (activeServers s) \<longrightarrow>
        noClash (activeServers (snd (startAllProxies rt s))))
   \<and> (fst (stopAllProxies s) = None \<longrightarrow>
        sockets (snd (startAllProxies rt s)) =
          sockets (snd (stopAllProxies s)) @
          map listenerOf (activeServers (snd (startAllProxies rt s))))"
proof -
  have start: "startRoute rt r s =
          (if toStringThrows (name r) then (Inl TypeError, s)
           else (Inr None,
                 log LWarn
                   (if protocol r = JStr ''tcp''
                    then ''TCP proxy cannot start: Address already in use''
                    else ''UDP proxy cannot start: Address already in use'') s))"
    if "e \<in> set (activeServers s)" "sameAddress e r"
      "protocol r = JStr ''tcp'' \<or> protocol r = JStr ''udp''"
  proof -
    from that(1,2) have ex: "list_ex (\<lambda>e. sameAddress e r) (activeServers s)"
      by (auto simp: list_ex_iff)
    from that(3) show ?thesis
    proof
      assume p: "protocol r = JStr ''tcp''"
      with ex show ?thesis
        by (simp add: startRoute_def startTcpProxy_def collides_iff)
    next
      assume p: "protocol r = JStr ''udp''"
      with ex show ?thesis
        by (simp add: startRoute_def startUdpProxy_def collides_iff)
    qed
  qed
  have one: "e \<in> set (activeServers s) \<and> sameAddress e r \<and>
      (protocol r = JStr ''tcp'' \<or> protocol r = JStr ''udp'') \<longrightarrow>
        startRoute rt r s =
          (if toStringThrows (name r) then (Inl TypeError, s)
           else (Inr None,
                 log LWarn
                   (if protocol r = JStr ''tcp''
                    then ''TCP proxy cannot start: Address already in use''
                    else ''UDP proxy cannot start: Address already in use'') s))
      \<and> sockets (snd (startRoute rt r s)) = sockets s
      \<and> nextId (snd (startRoute rt r s)) = nextId s
      \<and> activeServers (snd (startAndPush rt n r s)) = activeServers s"
  proof
    assume h: "e \<in> set (activeServers s) \<and> sameAddress e r \<and>
      (protocol r = JStr ''tcp'' \<or> protocol r = JStr ''udp'')"
    then have eq: "startRoute rt r s =
          (if toStringThrows (name r) then (Inl TypeError, s)
           else (Inr None,
                 log LWarn
                   (if protocol r = JStr ''tcp''
                    then ''TCP proxy cannot start: Address already in use''
                    else ''UDP proxy cannot start: Address already in use'') s))"
      using start by blast
    then have "sockets (snd (startRoute rt r s)) = sockets s"
      "nextId (snd (startRoute rt r s)) = nextId s"
      "activeServers (snd (startAndPush rt n r s)) = activeServers s"
      by (simp_all add: startAndPush_active)
    with eq show "startRoute rt r s =
          (if toStringThrows (name r) then (Inl TypeError, s)
           else (Inr None,
                 log LWarn
                   (if protocol r = JStr ''tcp''
                    then ''TCP proxy cannot start: Address already in use''
                    else ''UDP proxy cannot start: Address already in use'') s))
      \<and> sockets (snd (startRoute rt r s)) = sockets s
      \<and> nextId (snd (startRoute rt r s)) = nextId s
      \<and> activeServers (snd (startAndPush rt n r s)) = activeServers s"
      by (simp only:)
  qed
  have two: "fst (stopAllProxies s) = None \<or> noClash (activeServers s) \<longrightarrow>
        noClash (activeServers (snd (startAllProxies rt s)))"
    using startAllProxies_noClash[of s rt] startAllProxies_keeps_noClash[of s rt] by blast
  have three: "fst (stopAllProxies s) = None \<longrightarrow>
        sockets (snd (startAllProxies rt s)) =
          sockets (snd (stopAllProxies s)) @
          map listenerOf (activeServers (snd (startAllProxies rt s)))"
    using startAllProxies_sockets[of s rt] by blast
  from one two three show ?thesis by (intro conjI)
qed

theorem address_in_use_refused_witness:
  "startRoute rt0 routeB stateA =
     (Inr None, log LWarn ''TCP proxy cannot start: Address already in use'' stateA)
   \<and> activeServers (snd (startAndPush rt0 (JStr ''b'') routeB stateA)) =
       [entryFor (JStr ''a'') routeA (NetServer 0)]
   \<and> startRoute rt0 routeX stateA = (Inl TypeError, stateA)
   \<and> activeServers (snd (startAndPush rt0 exoticName routeX stateA)) =
       [entryFor (JStr ''a'') routeA (NetServer 0)]
   \<and> fst (stopAllProxies stateARun) = None
   \<and> noClash (activeServers (snd (startAllProxies rt0 stateARun)))
   \<and> sockets (snd (startAllProxies rt0 stateARun)) =
       [(1, TcpListener (listen routeA) (forward routeA)),
        (2, UdpListener (listen routeC) (forward routeC))]"
proof -
  have a: "entryFor (JStr ''a'') routeA (NetServer 0) \<in> set (activeServers stateA)"
    "activeServers stateA = [entryFor (JStr ''a'') routeA (NetServer 0)]"
    by (simp_all add: stateA_def state0_def)
  have b: "sameAddress (entryFor (JStr ''a'') routeA (NetServer 0)) routeB"
    "protocol routeB = JStr ''tcp''" "\<not> toStringThrows (name routeB)"
    by (simp_all add: sameAddress_def entryFor_def routeA_def routeB_def mkRoute_def)
  have x: "sameAddress (entryFor (JStr ''a'') routeA (NetServer 0)) routeX"
    "protocol routeX = JStr ''tcp''" "toStringThrows (name routeX)"
    by (simp_all add: sameAddress_def entryFor_def routeA_def routeX_def mkRoute_def
        exoticName_def)
  have st: "fst (stopAllProxies stateARun) = None"
    unfolding stopAllProxies_fst stopLoop_fst
    by (simp add: stateARun_def stateA_def state0_def entryFor_def routeA_def mkRoute_def)
  have so: "sockets (snd (stopAllProxies stateARun)) = []"
    by (simp add: stateARun_def stateA_def state0_def stopOne_def stopBody_def netClose_def
        dropSocket_def entryFor_def routeA_def mkRoute_def log_def)
  have ac: "activeServers (snd (startAllProxies rt0 stateARun)) =
              [entryFor (JStr ''a'') routeA (NetServer 1),
               entryFor (JStr ''c'') routeC (Wrapper 2)]"
    by (simp add: stateARun_eval)
  have lo: "map listenerOf [entryFor (JStr ''a'') routeA (NetServer 1),
               entryFor (JStr ''c'') routeC (Wrapper 2)] =
            [(1, TcpListener (listen routeA) (forward routeA)),
             (2, UdpListener (listen routeC) (forward routeC))]"
    by (simp add: listenerOf_def entryFor_def routeA_def routeC_def mkRoute_def)
  from address_in_use_refused[of "entryFor (JStr ''a'') routeA (NetServer 0)" stateA routeB
        rt0 "JStr ''b''"] a b
  have 1: "startRoute rt0 routeB stateA =
     (Inr None, log LWarn ''TCP proxy cannot start: Address already in use'' stateA)"
    "activeServers (snd (startAndPush rt0 (JStr ''b'') routeB stateA)) =
       [entryFor (JStr ''a'') routeA (NetServer 0)]"
    by simp_all
  from address_in_use_refused[of "entryFor (JStr ''a'') routeA (NetServer 0)" stateA routeX
        rt0 exoticName] a x
  have 2: "startRoute rt0 routeX stateA = (Inl TypeError, stateA)"
    "activeServers (snd (startAndPush rt0 exoticName routeX stateA)) =
       [entryFor (JStr ''a'') routeA (NetServer 0)]"
    by simp_all
  from address_in_use_refused[of "entryFor (JStr ''a'') routeA (NetServer 0)" stateARun routeB
        rt0 "JStr ''b''"] st
  have 3: "noClash (activeServers (snd (startAllProxies rt0 stateARun)))"
    "sockets (snd (startAllProxies rt0 stateARun)) =
          sockets (snd (stopAllProxies stateARun)) @
          map listenerOf (activeServers (snd (startAllProxies rt0 stateARun)))"
    by blast+
  from 3(2) so ac lo have 4: "sockets (snd (startAllProxies rt0 stateARun)) =
       [(1, TcpListener (listen routeA) (forward routeA)),
        (2, UdpListener (listen routeC) (forward routeC))]"
    by (simp only:) simp
  from 1 2 st 3(1) 4 show ?thesis by (intro conjI)
qed

section \<open>The example states, evaluated\<close>

lemma stateC_eval:
  "stateC =
     \<lparr>routes = [routeC],
      activeServers = [entryFor (JStr ''c'') routeC (Wrapper 0)],
      nextId = 1,
      sockets = [(0, UdpListener (listen routeC) (forward routeC))],
      clients = [(0, [])], timers = [], sent = [], saved = [],
      logs = [(LInfo, ''Started proxies'')]\<rparr>"
  by (simp add: stateC_def startAllProxies_def stopAllProxies_def state0_def Let_def
      startAndPush_def startRoute_def startUdpProxy_def pushActive_def collides_def
      routeC_def mkRoute_def rt0_def log_def)

lemma stateSession_eval:
  "stateSession =
     \<lparr>routes = [routeC],
      activeServers = [entryFor (JStr ''c'') routeC (Wrapper 0)],
      nextId = 4,
      sockets = [(0, UdpListener (listen routeC) (forward routeC)), (1, UdpClient)],
      clients = [(0, [(clientK, \<lparr>socket = 1, timeout = 3\<rparr>)])],
      timers = [(3, ResetTimer 0 clientK)],
      sent = [(1, forward routeC, ''ping'')], saved = [],
      logs = [(LInfo, ''Started proxies''), (LInfo, ''UDP client connected'')]\<rparr>"
  by (simp add: stateSession_def stateC_eval udpOnMessage_def createSession_def
      resetAndForward_def clientsOf_def setClients_def setSession_def clearTimeout_def
      dgramSend_def isOpen_def rt0_def log_def Let_def)

lemma stateSession_stopped:
  "stopAllProxies stateSession =
     (None,
      \<lparr>routes = [routeC],
       activeServers = [],
       nextId = 4,
       sockets = [(0, UdpListener (listen routeC) (forward routeC))],
       clients = [(0, [(clientK, \<lparr>socket = 1, timeout = 3\<rparr>)])],
       timers = [],
       sent = [(1, forward routeC, ''ping'')], saved = [],
       logs = [(LInfo, ''Started proxies''), (LInfo, ''UDP client connected''),
               (LError, ''Failed to stop proxy'')]\<rparr>)"
  by (simp add: stateSession_eval stopAllProxies_def stopOne_def stopBody_def clientsOf_def
      dgramClose_def isOpen_def dropSocket_def clearTimeout_def entryFor_def routeC_def
      mkRoute_def log_def)

lemma stateSession_restarted:
  "startAllProxies rt0 stateSession =
     (None,
      \<lparr>routes = [routeC],
       activeServers = [entryFor (JStr ''c'') routeC (Wrapper 4)],
       nextId = 5,
       sockets = [(0, UdpListener (listen routeC) (forward routeC)),
                  (4, UdpListener (listen routeC) (forward routeC))],
       clients = [(0, [(clientK, \<lparr>socket = 1, timeout = 3\<rparr>)]), (4, [])],
       timers = [],
       sent = [(1, forward routeC, ''ping'')], saved = [],
       logs = [(LInfo, ''Started proxies''), (LInfo, ''UDP client connected''),
               (LError, ''Failed to stop proxy''), (LInfo, ''Started proxies'')]\<rparr>)"
  by (simp add: startAllProxies_def stateSession_stopped
      startAndPush_def startRoute_def startUdpProxy_def pushActive_def collides_def
      routeC_def mkRoute_def rt0_def log_def Let_def)

lemma stateAXC_eval:
  "startAllProxies rt0 stateAXC =
     (Some TypeError,
      \<lparr>routes = [routeA, routeX, routeC],
       activeServers = [entryFor (JStr ''a'') routeA (NetServer 0)],
       nextId = 1,
       sockets = [(0, TcpListener (listen routeA) (forward routeA))],
       clients = [], timers = [], sent = [], saved = [], logs = []\<rparr>)"
  by (simp add: stateAXC_def startAllProxies_def stopAllProxies_def state0_def Let_def
      startAndPush_def startRoute_def startTcpProxy_def pushActive_def
      collides_def sameListen_def entryFor_def exoticName_def
      routeA_def routeX_def routeC_def mkRoute_def rt0_def log_def)

lemma startRoute_Inl_iff:
  "(\<exists>x. fst (startRoute rt r s) = Inl x) =
     ((protocol r = JStr ''tcp'' \<or> protocol r = JStr ''udp'') \<and> toStringThrows (name r) \<and>
      \<not> (startable rt r \<and> \<not> list_ex (\<lambda>e. sameAddress e r) (activeServers s)))"
  by (auto simp: startRoute_def startTcpProxy_def startUdpProxy_def startable_def collides_iff
      Let_def split: if_splits)

lemma startAndPush_throws_iff:
  "(fst (startAndPush rt n r s) \<noteq> None) =
     ((protocol r = JStr ''tcp'' \<or> protocol r = JStr ''udp'') \<and> toStringThrows (name r) \<and>
      \<not> (startable rt r \<and> \<not> list_ex (\<lambda>e. sameAddress e r) (activeServers s)))"
  using startRoute_Inl_iff[of rt r s]
  by (cases "fst (startRoute rt r s)") (auto simp: startAndPush_fst)

lemma start_step_inv:
  assumes inv: "\<And>x::route. startable rt x \<Longrightarrow>
             list_ex (\<lambda>e. sameAddress e x) (activeServers s) =
             list_ex (\<lambda>r'. enabled r' \<and> startable rt r' \<and> sameAddress r' x) prev"
    and x: "startable rt (x::route)"
  shows "list_ex (\<lambda>e. sameAddress e x)
           (activeServers (if enabled r then snd (startAndPush rt (name r) r s) else s)) =
         list_ex (\<lambda>r'. enabled r' \<and> startable rt r' \<and> sameAddress r' x) (prev @ [r])"
proof -
  define s1 where "s1 = (if enabled r then snd (startAndPush rt (name r) r s) else s)"
  define win where "win = (enabled r \<and> startable rt r \<and>
         \<not> list_ex (\<lambda>r'. enabled r' \<and> startable rt r' \<and> sameAddress r' r) prev)"
  have started: "enabled r \<Longrightarrow> (\<exists>srv. fst (startRoute rt r s) = Inr (Some srv)) = win"
    unfolding win_def using inv[of r] startRoute_iff[of rt r s] by blast
  have act1: "\<exists>ext. activeServers s1 = activeServers s @ ext
                \<and> map descr ext = (if win then [descr r] else [])"
  proof (cases "enabled r")
    case False
    then show ?thesis by (simp add: s1_def win_def)
  next
    case True
    from startAndPush_cases[of rt "name r" r s] show ?thesis
    proof
      assume "activeServers (snd (startAndPush rt (name r) r s)) = activeServers s
                 \<and> (\<forall>srv. fst (startRoute rt r s) \<noteq> Inr (Some srv))"
      with started[OF True] True show ?thesis by (simp add: s1_def)
    next
      assume "\<exists>srv. fst (startRoute rt r s) = Inr (Some srv) \<and>
         fst (startAndPush rt (name r) r s) = None \<and>
         activeServers (snd (startAndPush rt (name r) r s)) =
           activeServers s @ [entryFor (name r) r srv] \<and>
         sockets (snd (startAndPush rt (name r) r s)) =
           sockets s @ [listenerOf (entryFor (name r) r srv)]"
      with started[OF True] True show ?thesis by (auto simp: s1_def)
    qed
  qed
  then obtain ext where ext: "activeServers s1 = activeServers s @ ext"
    "map descr ext = (if win then [descr r] else [])" by blast
  have ext_ex: "list_ex (\<lambda>e. sameAddress e x) ext = (win \<and> sameAddress r x)"
  proof (cases win)
    case True
    with ext(2) obtain e1 where e1: "ext = [e1]" "descr e1 = descr r"
      by (cases ext) auto
    from sameAddress_descr[OF e1(2), of x] True e1(1) show ?thesis by simp
  next
    case False
    with ext(2) show ?thesis by simp
  qed
  have "list_ex (\<lambda>e. sameAddress e x) (activeServers s1) =
        list_ex (\<lambda>r'. enabled r' \<and> startable rt r' \<and> sameAddress r' x) (prev @ [r])"
  proof (cases win)
    case True
    then have "enabled r" "startable rt r" by (simp_all add: win_def)
    with True show ?thesis
      using inv[OF x] by (simp add: ext(1) ext_ex)
  next
    case False
    show ?thesis
    proof (cases "enabled r \<and> startable rt r \<and> sameAddress r x")
      case no: False
      then show ?thesis using False inv[OF x] by (auto simp: ext(1) ext_ex)
    next
      case yes: True
      with False have "list_ex (\<lambda>r'. enabled r' \<and> startable rt r' \<and> sameAddress r' r) prev"
        by (simp add: win_def)
      with inv[of r] yes have "list_ex (\<lambda>e. sameAddress e r) (activeServers s)"
        by simp
      then obtain e where "e \<in> set (activeServers s)" "sameAddress e r"
        by (auto simp: list_ex_iff)
      with yes have "list_ex (\<lambda>e. sameAddress e x) (activeServers s)"
        by (auto simp: list_ex_iff intro: sameAddress_trans)
      with False yes show ?thesis using inv[OF x] by (simp add: ext(1) ext_ex)
    qed
  qed
  then show ?thesis by (simp only: s1_def)
qed

lemma startLoop_fst_iff:
  assumes "\<And>x::route. startable rt x \<Longrightarrow>
             list_ex (\<lambda>e. sameAddress e x) (activeServers s) =
             list_ex (\<lambda>r'. enabled r' \<and> startable rt r' \<and> sameAddress r' x) prev"
  shows "(fst (startLoop rt rs s) = None) = (\<not> passThrows rt prev rs)"
  using assms
proof (induction rs arbitrary: s prev)
  case Nil
  show ?case by simp
next
  case (Cons r rs)
  define s1 where "s1 = (if enabled r then snd (startAndPush rt (name r) r s) else s)"
  define th where "th = (enabled r \<and> (protocol r = JStr ''tcp'' \<or> protocol r = JStr ''udp'') \<and>
       toStringThrows (name r) \<and>
       \<not> (startable rt r \<and>
          \<not> list_ex (\<lambda>r'. enabled r' \<and> startable rt r' \<and> sameAddress r' r) prev))"
  have inv1: "list_ex (\<lambda>e. sameAddress e x) (activeServers s1) =
         list_ex (\<lambda>r'. enabled r' \<and> startable rt r' \<and> sameAddress r' x) (prev @ [r])"
    if "startable rt x" for x :: route
    unfolding s1_def using start_step_inv[of rt s prev x r] Cons.prems that by blast
  from Cons.IH[of s1 "prev @ [r]"] inv1
  have ih: "(fst (startLoop rt rs s1) = None) = (\<not> passThrows rt (prev @ [r]) rs)"
    by blast
  have pt: "passThrows rt prev (r # rs) = (th \<or> passThrows rt (prev @ [r]) rs)"
    by (simp add: th_def)
  have th: "enabled r \<Longrightarrow> (fst (startAndPush rt (name r) r s) \<noteq> None) = th"
    using startAndPush_throws_iff[of rt "name r" r s] Cons.prems[of r]
    unfolding th_def by blast
  show ?case
  proof (cases "enabled r")
    case False
    then have "startLoop rt (r # rs) s = startLoop rt rs s1" "\<not> th"
      by (simp_all add: s1_def th_def)
    with ih pt show ?thesis by (simp only:) simp
  next
    case True
    show ?thesis
    proof (cases th)
      case True
      with th[OF \<open>enabled r\<close>] have "fst (startAndPush rt (name r) r s) \<noteq> None" by simp
      moreover from this \<open>enabled r\<close>
      have "startLoop rt (r # rs) s = startAndPush rt (name r) r s"
        by (simp only: startLoop_step if_True if_False)
      ultimately have "fst (startLoop rt (r # rs) s) \<noteq> None" by simp
      with True pt show ?thesis by (simp only:) simp
    next
      case False
      with th[OF \<open>enabled r\<close>] have "fst (startAndPush rt (name r) r s) = None" by simp
      with \<open>enabled r\<close> have "startLoop rt (r # rs) s = startLoop rt rs s1"
        by (simp add: startLoop_step s1_def del: startLoop.simps(2))
      with False ih pt show ?thesis by (simp only:) simp
    qed
  qed
qed

lemma startAllProxies_fst_iff:
  "(fst (startAllProxies rt s) = None) =
     (list_all (\<lambda>e. \<not> stopMessageThrows e) (activeServers s) \<and> \<not> passThrows rt [] (routes s))"
proof -
  have stop: "(fst (stopAllProxies s) = None) =
                list_all (\<lambda>e. \<not> stopMessageThrows e) (activeServers s)"
    by (simp only: stopAllProxies_fst stopLoop_fst)
  have start: "(fst (startLoop rt (routes s) (snd (stopAllProxies s))) = None) =
          (\<not> passThrows rt [] (routes s))"
    if "fst (stopAllProxies s) = None"
  proof (rule startLoop_fst_iff)
    fix x :: route
    from stopAllProxies_active[OF that]
    show "list_ex (\<lambda>e. sameAddress e x) (activeServers (snd (stopAllProxies s))) =
          list_ex (\<lambda>r'. enabled r' \<and> startable rt r' \<and> sameAddress r' x) []"
      by simp
  qed
  show ?thesis
    unfolding startAllProxies_fst stop[symmetric] using start by blast
qed

lemma stateRunD_eval:
  "startAllProxies rt1 stateRunD =
     (None,
      \<lparr>routes = [routeA, routeB, routeD, routeE, routeC],
       activeServers = [entryFor (JStr ''a'') routeA (NetServer 1),
                        entryFor (JStr ''c'') routeC (Wrapper 4)],
       nextId = 5,
       sockets = [(1, TcpListener (listen routeA) (forward routeA)),
                  (4, UdpListener (listen routeC) (forward routeC))],
       clients = [(3, []), (4, [])], timers = [], sent = [], saved = [],
       logs = [(LInfo, ''Stopped proxy''),
               (LWarn, ''TCP proxy cannot start: Address already in use''),
               (LError, ''Failed to start TCP proxy''),
               (LError, ''Failed to bind UDP server''),
               (LInfo, ''Started proxies'')]\<rparr>)"
  by (simp add: stateRunD_def stateA_def startAllProxies_def stopAllProxies_def stopOne_def
      stopBody_def netClose_def dropSocket_def state0_def Let_def
      startAndPush_def startRoute_def startTcpProxy_def startUdpProxy_def pushActive_def
      collides_def sameListen_def entryFor_def
      routeA_def routeB_def routeC_def routeD_def routeE_def mkRoute_def rt1_def rt0_def log_def)

section \<open>The pass of startAllProxies\<close>




section \<open>Routes of another protocol\<close>

lemma startAndPush_other:
  "protocol r \<noteq> JStr ''tcp'' \<Longrightarrow> protocol r \<noteq> JStr ''udp'' \<Longrightarrow>
     startAndPush rt n r s = (None, s)"
  by (simp add: startAndPush_def startRoute_def pushActive_def)

lemma stopServerFor_active:
  "activeServers (stopServerFor a n s) = activeServers s \<or>
   activeServers (stopServerFor a n s) = filter (\<lambda>e. \<not> strictEq (name e) n) (activeServers s)"
  by (cases "server a")
     (simp_all add: stopServerFor_def netClose_def dgramClose_def dropSocket_def split_beta
        split: option.splits)

lemma stopServerFor_subset:
  "set (activeServers (stopServerFor a n s)) \<subseteq> set (activeServers s)"
  using stopServerFor_active[of a n s] by auto

lemma stopServerFor_nextId [simp]: "nextId (stopServerFor a n s) = nextId s"
  by (cases "server a")
     (simp_all add: stopServerFor_def netClose_def dgramClose_def dropSocket_def split_beta
        split: option.splits)

lemma find_None: "(List.find P xs = None) = (\<not> list_ex P xs)"
  by (induction xs) auto

lemma startAllProxies_startable:
  assumes "fst (stopAllProxies s) = None"
  shows "list_all (startable rt) (activeServers (snd (startAllProxies rt s)))"
proof -
  from stopAllProxies_active[OF assms]
  have e: "activeServers (snd (stopAllProxies s)) = []" .
  from startLoop_new[of rt "routes s" "snd (stopAllProxies s)"] e
  have "list_all (startable rt)
          (activeServers (snd (startLoop rt (routes s) (snd (stopAllProxies s)))))"
    by (auto simp: list_all_iff)
  with assms show ?thesis
    by (simp add: startAllProxies_alt)
qed

text \<open>
  A route of another protocol that is not accepted. \<open>routeXS\<close> has the protocol
  \<^verbatim>\<open>'sctp'\<close> and the name \<^verbatim>\<open>{"toString": 1}\<close>; \<open>requestXS\<close> is the body of a
  \<^verbatim>\<open>POST /routes\<close> for it and passes the required-field check. \<^verbatim>\<open>addRoute\<close> stores
  the route, starts nothing for it, and throws a \<^verbatim>\<open>TypeError\<close> while it builds the
  message of its result from \<^verbatim>\<open>${route.name}\<close> (line 323); the control plane answers
  500.
\<close>

theorem other_protocol_counterexample:
  "protocol routeXS = JStr ''sctp''
   \<and> routeOfRequest (\<lambda>v. v) exoticName requestXS = Inr routeXS
   \<and> fst (addRoute rt0 routeXS stateA) = Inl TypeError
   \<and> routes (snd (addRoute rt0 routeXS stateA)) = [routeA, routeXS]
   \<and> activeServers (snd (addRoute rt0 routeXS stateA)) = activeServers stateA
   \<and> fst (apiPostRoutes rt0 (\<lambda>v. v) requestXS stateA) =
       \<lparr>statusCode = 500, body = \<lparr>success = False, message = InternalError\<rparr>\<rparr>"
proof -
  have 1: "protocol routeXS = JStr ''sctp''"
    by (simp add: routeXS_def mkRoute_def)
  have 2: "routeOfRequest (\<lambda>v. v) exoticName requestXS = Inr routeXS"
    by (simp add: routeOfRequest_def parseIntJs_def requestXS_def routeXS_def mkRoute_def
        propOf_def exoticName_def Let_def)
  have 3: "addRoute rt0 routeXS stateA =
             (Inl TypeError,
              saveConfig rt0 (stateA\<lparr>routes := routes stateA @ [routeXS]\<rparr>))"
    by (simp add: addRoute_def Let_def returnMsg_def hasName_def routeXS_def mkRoute_def
        exoticName_def stateA_def state0_def routeA_def startAndPush_def startRoute_def
        pushActive_def)
  have 4: "routes (snd (addRoute rt0 routeXS stateA)) = [routeA, routeXS]"
    "activeServers (snd (addRoute rt0 routeXS stateA)) = activeServers stateA"
    by (simp_all add: 3) (simp add: stateA_def state0_def)
  have 5: "fst (apiPostRoutes rt0 (\<lambda>v. v) requestXS stateA) =
       \<lparr>statusCode = 500, body = \<lparr>success = False, message = InternalError\<rparr>\<rparr>"
  proof -
    have g: "getProp requestXS ''name'' = Inr exoticName"
      "truthy exoticName" "truthy (propOf requestXS ''protocol'')"
      "truthy (propOf requestXS ''listen'')" "truthy (propOf requestXS ''forward'')"
      by (simp_all add: requestXS_def propOf_def exoticName_def)
    show ?thesis
      by (simp add: apiPostRoutes_def g 2 3 internalError_def)
  qed
  from 1 2 3 4 5 show ?thesis by simp
qed

text \<open>
  C9, as amended. A route whose protocol is neither \<^verbatim>\<open>'tcp'\<close> nor \<^verbatim>\<open>'udp'\<close> is
  stored by \<^verbatim>\<open>addRoute\<close> (under a name the table does not have), by \<^verbatim>\<open>updateRoute\<close>
  as the replacement definition and by \<^verbatim>\<open>toggleRoute\<close> (for a name the table has).
  \<^verbatim>\<open>updateRoute\<close> and \<^verbatim>\<open>toggleRoute\<close> return \<^verbatim>\<open>success: true\<close>; \<^verbatim>\<open>addRoute\<close>
  returns \<^verbatim>\<open>success: true\<close> when the name of the route converts to a string, and
  throws a \<^verbatim>\<open>TypeError\<close>, with the route stored, when it does not. In each of them the
  start of the route does nothing at all: no listener is created for it (no handle is
  allocated) and no entry is added to the active set (which can only lose entries, those
  of a listener of that name that was stopped). After a \<^verbatim>\<open>startAllProxies\<close> whose stop
  completed every entry of the active set has the protocol \<^verbatim>\<open>'tcp'\<close> or \<^verbatim>\<open>'udp'\<close>,
  so none is for such a route.
\<close>

theorem other_protocol_accepted_never_started:
  assumes "protocol r \<noteq> JStr ''tcp''" and "protocol r \<noteq> JStr ''udp''"
  shows "startAndPush rt n r s = (None, s)
       \<and> (\<not> list_ex (hasName (name r)) (routes s) \<longrightarrow>
            fst (addRoute rt r s) =
              (if toStringThrows (name r) then Inl TypeError
               else Inr \<lparr>success = True, message = Added (name r)\<rparr>)
          \<and> routes (snd (addRoute rt r s)) = routes s @ [r]
          \<and> activeServers (snd (addRoute rt r s)) = activeServers s
          \<and> nextId (snd (addRoute rt r s)) = nextId s)
       \<and> (findIndex (hasName n) (routes s) = Some i \<longrightarrow>
            fst (updateRoute rt n r s) = Inr \<lparr>success = True, message = Updated n\<rparr>
          \<and> routes (snd (updateRoute rt n r s)) = (routes s)[i := r\<lparr>name := n\<rparr>]
          \<and> set (activeServers (snd (updateRoute rt n r s))) \<subseteq> set (activeServers s)
          \<and> nextId (snd (updateRoute rt n r s)) = nextId s)
       \<and> (findIndex (hasName n) (routes s) = Some i \<and> protocol (routes s ! i) = protocol r \<longrightarrow>
            (\<exists>m. fst (toggleRoute rt n s) = Inr \<lparr>success = True, message = m\<rparr>)
          \<and> routes (snd (toggleRoute rt n s)) =
              (routes s)[i := (routes s ! i)\<lparr>enabled := \<not> enabled (routes s ! i)\<rparr>]
          \<and> set (activeServers (snd (toggleRoute rt n s))) \<subseteq> set (activeServers s)
          \<and> nextId (snd (toggleRoute rt n s)) = nextId s)
       \<and> (fst (stopAllProxies s) = None \<longrightarrow>
            list_all (\<lambda>e. protocol e \<noteq> protocol r) (activeServers (snd (startAllProxies rt s))))"
proof -
  have sp: "startAndPush rt n r s = (None, s)" for n s
    using assms by (rule startAndPush_other)
  have add: "fst (addRoute rt r s) =
              (if toStringThrows (name r) then Inl TypeError
               else Inr \<lparr>success = True, message = Added (name r)\<rparr>)
          \<and> routes (snd (addRoute rt r s)) = routes s @ [r]
          \<and> activeServers (snd (addRoute rt r s)) = activeServers s
          \<and> nextId (snd (addRoute rt r s)) = nextId s"
    if "\<not> list_ex (hasName (name r)) (routes s)"
  proof -
    from that have "List.find (hasName (name r)) (routes s) = None"
      by (simp add: find_None)
    then show ?thesis
      by (simp add: addRoute_def Let_def sp returnMsg_def)
  qed
  have upd: "fst (updateRoute rt n r s) = Inr \<lparr>success = True, message = Updated n\<rparr>
          \<and> routes (snd (updateRoute rt n r s)) = (routes s)[i := r\<lparr>name := n\<rparr>]
          \<and> set (activeServers (snd (updateRoute rt n r s))) \<subseteq> set (activeServers s)
          \<and> nextId (snd (updateRoute rt n r s)) = nextId s"
    if "findIndex (hasName n) (routes s) = Some i"
    using that
    by (auto simp: updateRoute_def Let_def sp split: option.splits
        dest: subsetD[OF stopServerFor_subset])
  have tog: "(\<exists>m. fst (toggleRoute rt n s) = Inr \<lparr>success = True, message = m\<rparr>)
          \<and> routes (snd (toggleRoute rt n s)) =
              (routes s)[i := (routes s ! i)\<lparr>enabled := \<not> enabled (routes s ! i)\<rparr>]
          \<and> set (activeServers (snd (toggleRoute rt n s))) \<subseteq> set (activeServers s)
          \<and> nextId (snd (toggleRoute rt n s)) = nextId s"
    if "findIndex (hasName n) (routes s) = Some i" "protocol (routes s ! i) = protocol r"
  proof -
    from findIndex_Some[OF that(1)] have i: "i < length (routes s)" by simp
    with that(2) assms
    have p: "protocol ((routes s)[i := (routes s ! i)\<lparr>enabled := \<not> enabled (routes s ! i)\<rparr>] ! i) \<noteq> JStr ''tcp''"
      "protocol ((routes s)[i := (routes s ! i)\<lparr>enabled := \<not> enabled (routes s ! i)\<rparr>] ! i) \<noteq> JStr ''udp''"
      by simp_all
    show ?thesis
      using that(1)
      by (auto simp: toggleRoute_def Let_def startAndPush_other[OF p] split: option.splits
          dest: subsetD[OF stopServerFor_subset])
  qed
  have all: "list_all (\<lambda>e. protocol e \<noteq> protocol r) (activeServers (snd (startAllProxies rt s)))"
    if "fst (stopAllProxies s) = None"
    using startAllProxies_startable[OF that, of rt] assms
    by (auto simp: list_all_iff startable_def split: if_splits)
  from sp add upd tog all show ?thesis by blast
qed

theorem other_protocol_accepted_never_started_witness:
  "enabled routeS1
   \<and> startAndPush rt0 (JStr ''s'') routeS1 stateA = (None, stateA)
   \<and> fst (addRoute rt0 routeS1 stateA) = Inr \<lparr>success = True, message = Added (JStr ''s'')\<rparr>
   \<and> routes (snd (addRoute rt0 routeS1 stateA)) = [routeA, routeS1]
   \<and> activeServers (snd (addRoute rt0 routeS1 stateA)) = activeServers stateA
   \<and> fst (updateRoute rt0 (JStr ''a'') routeS1 stateA) =
       Inr \<lparr>success = True, message = Updated (JStr ''a'')\<rparr>
   \<and> nextId (snd (updateRoute rt0 (JStr ''a'') routeS1 stateA)) = nextId stateA
   \<and> (\<exists>m. fst (toggleRoute rt0 (JStr ''s'') stateAS) = Inr \<lparr>success = True, message = m\<rparr>)
   \<and> routes (snd (toggleRoute rt0 (JStr ''s'') stateAS)) = [routeA, routeS1]
   \<and> nextId (snd (toggleRoute rt0 (JStr ''s'') stateAS)) = nextId stateAS
   \<and> list_all (\<lambda>e. protocol e \<noteq> JStr ''sctp'')
        (activeServers (snd (startAllProxies rt0 stateAS1)))"
proof -
  have p: "protocol routeS1 \<noteq> JStr ''tcp''" "protocol routeS1 \<noteq> JStr ''udp''"
    "protocol routeS1 = JStr ''sctp''" "name routeS1 = JStr ''s''" "enabled routeS1"
    by (simp_all add: routeS1_def mkRoute_def)
  have a: "\<not> list_ex (hasName (name routeS1)) (routes stateA)" "routes stateA = [routeA]"
    by (simp_all add: routeS1_def routeA_def mkRoute_def stateA_def state0_def hasName_def)
  have u: "findIndex (hasName (JStr ''a'')) (routes stateA) = Some 0"
    by (simp add: routeA_def mkRoute_def stateA_def state0_def hasName_def)
  have t: "findIndex (hasName (JStr ''s'')) (routes stateAS) = Some 1"
    "protocol (routes stateAS ! 1) = protocol routeS1"
    "(routes stateAS)[1 := (routes stateAS ! 1)\<lparr>enabled := \<not> enabled (routes stateAS ! 1)\<rparr>] =
       [routeA, routeS1]"
    by (simp_all add: routeS_def routeS1_def routeA_def mkRoute_def stateAS_def stateA_def
        state0_def hasName_def)
  have st: "fst (stopAllProxies stateAS1) = None"
    unfolding stopAllProxies_fst stopLoop_fst
    by (simp add: stateAS1_def stateA_def state0_def entryFor_def routeA_def mkRoute_def)
  note A = other_protocol_accepted_never_started[OF p(1,2), of rt0 "JStr ''s''" stateA 0]
  note U = other_protocol_accepted_never_started[OF p(1,2), of rt0 "JStr ''a''" stateA 0]
  note T = other_protocol_accepted_never_started[OF p(1,2), of rt0 "JStr ''s''" stateAS 1]
  note S = other_protocol_accepted_never_started[OF p(1,2), of rt0 "JStr ''s''" stateAS1 0]
  from A have 1: "startAndPush rt0 (JStr ''s'') routeS1 stateA = (None, stateA)" by blast
  from A a have 2:
    "fst (addRoute rt0 routeS1 stateA) = Inr \<lparr>success = True, message = Added (JStr ''s'')\<rparr>"
    "routes (snd (addRoute rt0 routeS1 stateA)) = [routeA, routeS1]"
    "activeServers (snd (addRoute rt0 routeS1 stateA)) = activeServers stateA"
    by (simp_all add: p)
  from U u have 3: "fst (updateRoute rt0 (JStr ''a'') routeS1 stateA) =
       Inr \<lparr>success = True, message = Updated (JStr ''a'')\<rparr>"
    "nextId (snd (updateRoute rt0 (JStr ''a'') routeS1 stateA)) = nextId stateA"
    by blast+
  from T t(1,2) have 4:
    "\<exists>m. fst (toggleRoute rt0 (JStr ''s'') stateAS) = Inr \<lparr>success = True, message = m\<rparr>"
    "routes (snd (toggleRoute rt0 (JStr ''s'') stateAS)) =
       (routes stateAS)[1 := (routes stateAS ! 1)\<lparr>enabled := \<not> enabled (routes stateAS ! 1)\<rparr>]"
    "nextId (snd (toggleRoute rt0 (JStr ''s'') stateAS)) = nextId stateAS"
    by blast+
  from S st have 5: "list_all (\<lambda>e. protocol e \<noteq> JStr ''sctp'')
        (activeServers (snd (startAllProxies rt0 stateAS1)))"
    by (simp add: p)
  from p(5) 1 2 3 4(1) 4(2)[unfolded t(3)] 4(3) 5 show ?thesis by (intro conjI)
qed

section \<open>Toggling twice\<close>


lemma findIndex_update:
  "findIndex P xs = Some i \<Longrightarrow> P y \<Longrightarrow> findIndex P (xs[i := y]) = Some i"
proof (induction xs arbitrary: i)
  case Nil
  then show ?case by simp
next
  case (Cons x xs)
  then show ?case by (cases i) (auto split: if_splits option.splits)
qed

lemma hasName_refl: "hasName n x \<Longrightarrow> strictEq n n"
  unfolding hasName_def by (blast intro: strictEq_sym strictEq_trans)

lemma toggleRoute_snd:
  assumes "findIndex (hasName n) (routes s) = Some i"
  shows "snd (toggleRoute rt n s) =
    (let old = routes s ! i;
         s1 = saveConfig rt (s\<lparr>routes := (routes s)[i := old\<lparr>enabled := \<not> enabled old\<rparr>]\<rparr>)
     in case List.find (hasName n) (activeServers s) of
          None \<Rightarrow> if enabled old then s1 else snd (startAndPush rt n (old\<lparr>enabled := True\<rparr>) s1)
        | Some a \<Rightarrow> if enabled old then stopServerFor a n s1 else s1)"
proof -
  from findIndex_Some[OF assms] have "i < length (routes s)" by simp
  then show ?thesis
    using assms by (simp add: toggleRoute_def Let_def split_beta split: option.splits)
qed

lemma toggleRoute_routes:
  assumes "findIndex (hasName n) (routes s) = Some i"
  shows "routes (snd (toggleRoute rt n s)) =
           (routes s)[i := (routes s ! i)\<lparr>enabled := \<not> enabled (routes s ! i)\<rparr>]"
  by (simp add: toggleRoute_snd[OF assms] Let_def startAndPush_routes split: option.splits)

lemma toggle_twice_routes:
  assumes "findIndex (hasName n) (routes s) = Some i"
  shows "routes (snd (toggleRoute rt n (snd (toggleRoute rt n s)))) = routes s"
proof -
  let ?r = "routes s ! i"
  let ?t = "snd (toggleRoute rt n s)"
  from findIndex_Some[OF assms] have i: "i < length (routes s)" "hasName n ?r" by simp_all
  have r1: "routes ?t = (routes s)[i := ?r\<lparr>enabled := \<not> enabled ?r\<rparr>]"
    by (rule toggleRoute_routes[OF assms])
  have "hasName n (?r\<lparr>enabled := \<not> enabled ?r\<rparr>)"
    using i(2) by (simp add: hasName_def)
  from findIndex_update[OF assms this]
  have f1: "findIndex (hasName n) (routes ?t) = Some i" by (simp add: r1)
  show ?thesis
    using i(1) by (simp add: toggleRoute_routes[OF f1] r1)
qed

lemma startRoute_tcp_ref:
  assumes "fst (startRoute rt r s) = Inr (Some srv)" and "protocol r \<noteq> JStr ''udp''"
  shows "srv = NetServer (nextId s)"
  using assms
  by (auto simp: startRoute_def startTcpProxy_def Let_def split: if_splits)

lemma stopServerFor_net:
  "server a = NetServer h \<Longrightarrow>
     activeServers (stopServerFor a n s) = filter (\<lambda>e. \<not> strictEq (name e) n) (activeServers s)"
  by (simp add: stopServerFor_def netClose_def dropSocket_def)

lemma no_listener_after_filter:
  "\<not> list_ex (hasName n) (filter (\<lambda>e. \<not> strictEq (name e) n) xs)"
  by (simp add: list_ex_iff hasName_def)

lemma find_append_new:
  "List.find P xs = None \<Longrightarrow> P y \<Longrightarrow> List.find P (xs @ [y]) = Some y"
  by (induction xs) (auto split: if_splits)

lemma find_Some_ex: "List.find P xs = Some a \<Longrightarrow> list_ex P xs"
  by (induction xs) (auto split: if_splits)

lemma hasName_entryFor [simp]: "hasName n (entryFor m r srv) = strictEq m n"
  by (simp add: hasName_def entryFor_def)

lemma startRoute_enabled_irrelevant:
  "startRoute rt (r\<lparr>enabled := b\<rparr>) s = startRoute rt r s"
  by (simp add: startRoute_def startTcpProxy_def startUdpProxy_def collides_def sameListen_def
      Let_def)

lemma entryFor_enabled_irrelevant: "entryFor n (r\<lparr>enabled := b\<rparr>) srv = entryFor n r srv"
  by (simp add: entryFor_def)

lemma toggle_twice_off:
  assumes idx: "findIndex (hasName n) (routes s) = Some i"
    and dis: "\<not> enabled (routes s ! i)"
    and none: "\<not> hasListener n s"
    and proto: "protocol (routes s ! i) \<noteq> JStr ''udp''"
  shows "\<not> hasListener n (snd (toggleRoute rt n (snd (toggleRoute rt n s))))"
proof -
  define r where "r = routes s ! i"
  define s1 where "s1 = saveConfig rt (s\<lparr>routes := (routes s)[i := r\<lparr>enabled := True\<rparr>]\<rparr>)"
  define t1 where "t1 = snd (toggleRoute rt n s)"
  from findIndex_Some[OF idx] have i: "i < length (routes s)" "hasName n r"
    by (simp_all add: r_def)
  from i(2) have nn: "strictEq n n" by (rule hasName_refl)
  from none have fnone: "List.find (hasName n) (activeServers s) = None"
    by (simp add: find_None hasListener_def)
  have t1: "t1 = snd (startAndPush rt n (r\<lparr>enabled := True\<rparr>) s1)"
    using dis fnone by (simp add: t1_def toggleRoute_snd[OF idx] Let_def r_def s1_def)
  have rt1: "routes t1 = (routes s)[i := r\<lparr>enabled := True\<rparr>]"
    by (simp add: t1 s1_def startAndPush_routes)
  have "hasName n (r\<lparr>enabled := True\<rparr>)"
    using i(2) by (simp add: hasName_def)
  from findIndex_update[OF idx this] have idx1: "findIndex (hasName n) (routes t1) = Some i"
    by (simp add: rt1)
  have old1: "enabled (routes t1 ! i)"
    using i(1) by (simp add: rt1)
  define s2 where "s2 = saveConfig rt
      (t1\<lparr>routes := (routes t1)[i := (routes t1 ! i)\<lparr>enabled := \<not> enabled (routes t1 ! i)\<rparr>]\<rparr>)"
  have act_s2: "activeServers s2 = activeServers t1"
    by (simp add: s2_def)
  have t2: "snd (toggleRoute rt n t1) =
      (case List.find (hasName n) (activeServers t1) of
         None \<Rightarrow> s2 | Some a \<Rightarrow> stopServerFor a n s2)"
    using old1 by (simp add: toggleRoute_snd[OF idx1] Let_def s2_def split: option.splits)
  have act_s1: "activeServers s1 = activeServers s"
    by (simp add: s1_def)
  show ?thesis
  proof (cases "\<exists>srv. fst (startRoute rt r s1) = Inr (Some srv)")
    case False
    then have "activeServers t1 = activeServers s"
      by (auto simp: t1 startAndPush_active startRoute_enabled_irrelevant act_s1
          split: sum.splits option.splits)
    with fnone none show ?thesis
      by (simp add: t1_def[symmetric] t2 hasListener_def act_s2)
  next
    case True
    then obtain srv where Some: "fst (startRoute rt r s1) = Inr (Some srv)" by blast
    from startRoute_tcp_ref[OF Some] proto have srv: "srv = NetServer (nextId s1)"
      by (simp add: r_def)
    from Some have a1: "activeServers t1 = activeServers s @ [entryFor n r srv]"
      by (simp add: t1 startAndPush_active startRoute_enabled_irrelevant act_s1
          entryFor_enabled_irrelevant)
    from find_append_new[OF fnone, of "entryFor n r srv"] nn
    have f1: "List.find (hasName n) (activeServers t1) = Some (entryFor n r srv)"
      by (simp add: a1)
    have "activeServers (snd (toggleRoute rt n t1)) =
            filter (\<lambda>e. \<not> strictEq (name e) n) (activeServers s2)"
      by (simp add: t2 f1 stopServerFor_net[of _ "nextId s1"] srv)
    then show ?thesis
      by (simp add: t1_def[symmetric] hasListener_def no_listener_after_filter)
  qed
qed

lemma toggle_twice_on:
  assumes idx: "findIndex (hasName n) (routes s) = Some i"
    and en: "enabled (routes s ! i)"
    and found: "List.find (hasName n) (activeServers s) = Some a"
    and ok: "startable rt (routes s ! i)"
    and free: "\<forall>e\<in>set (activeServers s). \<not> hasName n e \<longrightarrow> \<not> sameAddress e (routes s ! i)"
  shows "hasListener n (snd (toggleRoute rt n (snd (toggleRoute rt n s))))"
proof -
  define r where "r = routes s ! i"
  define s1 where "s1 = saveConfig rt (s\<lparr>routes := (routes s)[i := r\<lparr>enabled := False\<rparr>]\<rparr>)"
  define t1 where "t1 = snd (toggleRoute rt n s)"
  from findIndex_Some[OF idx] have i: "i < length (routes s)" "hasName n r"
    by (simp_all add: r_def)
  from i(2) have nn: "strictEq n n" by (rule hasName_refl)
  have t1: "t1 = stopServerFor a n s1"
    using en found by (simp add: t1_def toggleRoute_snd[OF idx] Let_def r_def s1_def)
  have rt1: "routes t1 = (routes s)[i := r\<lparr>enabled := False\<rparr>]"
    by (simp add: t1 s1_def)
  have "hasName n (r\<lparr>enabled := False\<rparr>)"
    using i(2) by (simp add: hasName_def)
  from findIndex_update[OF idx this] have idx1: "findIndex (hasName n) (routes t1) = Some i"
    by (simp add: rt1)
  have old1: "\<not> enabled (routes t1 ! i)" "(routes t1 ! i)\<lparr>enabled := True\<rparr> = r"
    using i(1) en by (simp_all add: rt1 r_def)
  define s2 where "s2 = saveConfig rt
      (t1\<lparr>routes := (routes t1)[i := (routes t1 ! i)\<lparr>enabled := \<not> enabled (routes t1 ! i)\<rparr>]\<rparr>)"
  have act_s2: "activeServers s2 = activeServers t1"
    by (simp add: s2_def)
  have t2: "snd (toggleRoute rt n t1) =
      (case List.find (hasName n) (activeServers t1) of
         None \<Rightarrow> snd (startAndPush rt n r s2) | Some a \<Rightarrow> s2)"
    using old1 by (simp add: toggleRoute_snd[OF idx1] Let_def s2_def split: option.splits)
  have act_s1: "activeServers s1 = activeServers s"
    by (simp add: s1_def)
  from stopServerFor_active[of a n s1] show ?thesis
  proof
    assume "activeServers (stopServerFor a n s1) = activeServers s1"
    then have same: "activeServers t1 = activeServers s"
      by (simp add: t1 act_s1)
    with found have "activeServers (snd (toggleRoute rt n t1)) = activeServers s"
      by (simp add: t2 act_s2)
    with find_Some_ex[OF found] show ?thesis
      by (simp add: t1_def[symmetric] hasListener_def)
  next
    assume "activeServers (stopServerFor a n s1) =
              filter (\<lambda>e. \<not> strictEq (name e) n) (activeServers s1)"
    then have gone: "activeServers t1 = filter (\<lambda>e. \<not> strictEq (name e) n) (activeServers s)"
      by (simp add: t1 act_s1)
    then have "\<not> list_ex (hasName n) (activeServers t1)"
      by (simp add: no_listener_after_filter)
    then have f1: "List.find (hasName n) (activeServers t1) = None"
      by (simp add: find_None)
    from free have "\<not> list_ex (\<lambda>e. sameAddress e r) (activeServers s2)"
      by (auto simp: act_s2 gone list_ex_iff hasName_def r_def)
    from startRoute_succeeds[OF ok[folded r_def] this] obtain srv where
      "fst (startRoute rt r s2) = Inr (Some srv)" by blast
    then have "activeServers (snd (toggleRoute rt n t1)) = activeServers s2 @ [entryFor n r srv]"
      by (simp add: t2 f1 startAndPush_active)
    with nn show ?thesis
      by (simp add: t1_def[symmetric] hasListener_def)
  qed
qed



section \<open>The idle timer of a UDP session\<close>

lemma clientsOf_setClients [simp]: "clientsOf (setClients h m s) h = m"
  by (simp add: clientsOf_def setClients_def)

lemma setClients_fields [simp]:
  "timers (setClients h m s) = timers s"
  "nextId (setClients h m s) = nextId s"
  "sockets (setClients h m s) = sockets s"
  by (simp_all add: setClients_def)

lemma dgramSend_fields [simp]:
  "timers (snd (dgramSend c d p s)) = timers s"
  "clients (snd (dgramSend c d p s)) = clients s"
  by (simp_all add: dgramSend_def)

lemma clientsOf_cong: "clients s = clients s' \<Longrightarrow> clientsOf s h = clientsOf s' h"
  by (simp add: clientsOf_def)

lemma clientsOf_other_fields [simp]:
  "clientsOf (s\<lparr>nextId := a, timers := b\<rparr>) h = clientsOf s h"
  "clientsOf (s\<lparr>nextId := a, sockets := ss, timers := b\<rparr>) h = clientsOf s h"
  "clientsOf (clearTimeout t s) h = clientsOf s h"
  "clientsOf (log l m s) h = clientsOf s h"
  by (simp_all add: clientsOf_def clearTimeout_def)

lemma map_of_replace:
  "map_of m k = Some c0 \<Longrightarrow> map_of (map (\<lambda>p. if fst p = k then (k, c) else p) m) k = Some c"
  by (induction m) (auto split: if_splits)

lemma map_of_append_new: "map_of m k = None \<Longrightarrow> map_of (m @ [(k, v)]) k = Some v"
  by (induction m) (auto split: if_splits)

lemma resetAndForward_timer:
  assumes "map_of (clientsOf s h) k = Some c"
  shows "timers (resetAndForward h fwd k p s) =
           filter (\<lambda>q. fst q \<noteq> timeout c) (timers s) @ [(nextId s, ResetTimer h k)]
       \<and> map_of (clientsOf (resetAndForward h fwd k p s) h) k = Some (c\<lparr>timeout := nextId s\<rparr>)"
proof -
  define s3 where "s3 = setSession h k (c\<lparr>timeout := nextId s\<rparr>)
      ((clearTimeout (timeout c) s)\<lparr>nextId := Suc (nextId s),
         timers := timers (clearTimeout (timeout c) s) @ [(nextId s, ResetTimer h k)]\<rparr>)"
  have c3: "clientsOf s3 h = map (\<lambda>q. if fst q = k then (k, c\<lparr>timeout := nextId s\<rparr>) else q) (clientsOf s h)"
    by (simp add: s3_def setSession_def)
  have t3: "timers s3 = filter (\<lambda>q. fst q \<noteq> timeout c) (timers s) @ [(nextId s, ResetTimer h k)]"
    by (simp add: s3_def setSession_def clearTimeout_def)
  have r: "resetAndForward h fwd k p s =
      (case dgramSend (socket c) fwd p s3 of
         (Some x, s') \<Rightarrow> log LError ''UDP send error'' s' | (None, s') \<Rightarrow> s')"
    using assms by (simp add: resetAndForward_def Let_def s3_def clearTimeout_def)
  have "timers (resetAndForward h fwd k p s) = timers s3"
    by (simp add: r split_beta split: option.splits)
  moreover have "clients (resetAndForward h fwd k p s) = clients s3"
    by (simp add: r split_beta split: option.splits)
  ultimately show ?thesis
    using map_of_replace[OF assms] by (simp add: t3 clientsOf_cong[of _ s3] c3)
qed


lemma createSession_existing:
  "map_of (clientsOf s h) k = Some c \<Longrightarrow> createSession rt h k s = (False, s)"
  by (simp add: createSession_def)

lemma createSession_new:
  assumes "map_of (clientsOf s h) k = None" and "\<not> createSocketThrows rt"
  shows "\<exists>s'. createSession rt h k s = (False, s')
           \<and> map_of (clientsOf s' h) k = Some \<lparr>socket = nextId s, timeout = Suc (nextId s)\<rparr>
           \<and> timers s' = timers s @ [(Suc (nextId s), InitialTimer h (nextId s) k)]
           \<and> nextId s' = Suc (Suc (nextId s))"
  using assms by (simp add: createSession_def Let_def map_add_def)




section \<open>Stopping a UDP listener\<close>

lemma stopBody_wrapper_throws:
  assumes "server e = Wrapper h" and "protocol e = JStr ''udp''"
  shows "fst (stopBody e s) \<noteq> None"
  using assms by (simp add: stopBody_def split_beta split: option.splits)

lemma stopOne_wrapper_logs_failure:
  assumes "server e = Wrapper h" and "protocol e = JStr ''udp''"
    and "\<not> toStringThrows (name e)"
  shows "logs (snd (stopOne e s)) =
           logs (snd (stopBody e s)) @ [(LError, ''Failed to stop proxy'')]"
  using stopBody_wrapper_throws[OF assms(1,2), of s] assms(2,3)
  by (auto simp: stopOne_def split_beta log_def split: option.splits)

text \<open>
  C2 (the code departs from it). With a UDP listener running for \<open>routeC\<close> (handle 0)
  and one session (socket 1, timer 3), \<^verbatim>\<open>stopAllProxies\<close> closes the socket of the
  session and cancels its timer, and then calls \<^verbatim>\<open>close\<close> on the object
  \<^verbatim>\<open>{ server, clients }\<close>, which has no such method: the \<^verbatim>\<open>catch\<close> logs the
  failure, the listening socket 0 stays open, and the active set is emptied. The
  \<^verbatim>\<open>startAllProxies\<close> that follows passes the scan and creates a second socket
  (handle 4) for the address the first still holds.
\<close>

theorem stopAll_leaves_udp_listener_open:
  "fst (stopAllProxies stateSession) = None
   \<and> sockets (snd (stopAllProxies stateSession)) =
       [(0, UdpListener (listen routeC) (forward routeC))]
   \<and> timers (snd (stopAllProxies stateSession)) = []
   \<and> activeServers (snd (stopAllProxies stateSession)) = []
   \<and> logs (snd (stopAllProxies stateSession)) =
       logs stateSession @ [(LError, ''Failed to stop proxy'')]
   \<and> sockets (snd (startAllProxies rt0 stateSession)) =
       [(0, UdpListener (listen routeC) (forward routeC)),
        (4, UdpListener (listen routeC) (forward routeC))]"
proof -
  have stop: "fst (stopAllProxies stateSession) = None"
    "sockets (snd (stopAllProxies stateSession)) =
       [(0, UdpListener (listen routeC) (forward routeC))]"
    "timers (snd (stopAllProxies stateSession)) = []"
    "activeServers (snd (stopAllProxies stateSession)) = []"
    "logs (snd (stopAllProxies stateSession)) =
       [(LInfo, ''Started proxies''), (LInfo, ''UDP client connected''),
        (LError, ''Failed to stop proxy'')]"
    by (simp_all add: stateSession_stopped)
  have before: "logs stateSession =
       [(LInfo, ''Started proxies''), (LInfo, ''UDP client connected'')]"
    by (simp add: stateSession_eval)
  have start: "sockets (snd (startAllProxies rt0 stateSession)) =
       [(0, UdpListener (listen routeC) (forward routeC)),
        (4, UdpListener (listen routeC) (forward routeC))]"
    by (simp add: stateSession_restarted)
  from stop before start show ?thesis
    by (simp only:) simp
qed

section \<open>Updating a running UDP route\<close>

lemma stopServerFor_wrapper:
  assumes "server a = Wrapper h" and "protocol a = JStr ''tcp'' \<or> protocol a = JStr ''udp''"
  shows "stopServerFor a n s = log LError ''Failed to stop server for route'' s"
  using assms by (auto simp: stopServerFor_def)

text \<open>
  C3 (the code departs from it). With the UDP listener of \<open>routeC\<close> running,
  \<^verbatim>\<open>updateRoute\<close> to a definition with another forward target stores the new
  definition and reports success, but the \<^verbatim>\<open>close\<close> of the old listener throws (it
  is called on the object \<^verbatim>\<open>{ server, clients }\<close>), so the filter of the active set
  is skipped; the start of the new definition then finds the old entry on its address
  and is refused. The old listener stays open and in the active set, with the old
  forward target.
\<close>

theorem update_keeps_old_udp_listener:
  "fst (updateRoute rt0 (JStr ''c'') routeC2 stateC) =
     Inr \<lparr>success = True, message = Updated (JStr ''c'')\<rparr>
   \<and> routes (snd (updateRoute rt0 (JStr ''c'') routeC2 stateC)) = [routeC2]
   \<and> activeServers (snd (updateRoute rt0 (JStr ''c'') routeC2 stateC)) =
       [entryFor (JStr ''c'') routeC (Wrapper 0)]
   \<and> sockets (snd (updateRoute rt0 (JStr ''c'') routeC2 stateC)) =
       [(0, UdpListener (listen routeC) (forward routeC))]
   \<and> forward routeC = \<lparr>host = JStr ''10.0.0.1'', port = JNum 83\<rparr>
   \<and> forward routeC2 = \<lparr>host = JStr ''10.0.0.1'', port = JNum 99\<rparr>
   \<and> logs (snd (updateRoute rt0 (JStr ''c'') routeC2 stateC)) =
       logs stateC @
       [(LInfo, ''Config saved''), (LError, ''Failed to stop server for route''),
        (LWarn, ''UDP proxy cannot start: Address already in use'')]"
  by (simp add: stateC_eval updateRoute_def hasName_def routeC_def routeC2_def mkRoute_def
      entryFor_def saveConfig_def rt0_def log_def stopServerFor_def Let_def startAndPush_def
      startRoute_def startUdpProxy_def pushActive_def collides_def sameListen_def)

section \<open>An error of a listener after the bind\<close>

lemma tcpOnError_removes_that_listener:
  "activeServers (tcpOnError h s) = filter (\<lambda>e. server e \<noteq> NetServer h) (activeServers s)
   \<and> routes (tcpOnError h s) = routes s \<and> sockets (tcpOnError h s) = sockets s
   \<and> logs (tcpOnError h s) = logs s @ [(LError, ''TCP server error'')]"
  by (simp add: tcpOnError_def Let_def log_def)

lemma udpOnError_keeps_entries:
  assumes "list_all (\<lambda>e. server e \<noteq> DgramSocket h) (activeServers s)"
  shows "activeServers (udpOnError h s) = activeServers s"
proof -
  from assms have "filter (\<lambda>e. server e \<noteq> DgramSocket h) (activeServers s) = activeServers s"
    by (simp add: list_all_iff)
  then show ?thesis
    by (simp add: udpOnError_def Let_def dgramClose_def dropSocket_def split_beta)
qed

text \<open>
  C4 (the code departs from it for UDP). The \<^verbatim>\<open>'error'\<close> handler of the TCP listener
  of \<open>routeA\<close> logs the error and removes its entry from the active set. The handler
  of the UDP listener of \<open>routeC\<close> logs the error and closes the socket, but its filter
  compares the entries with the socket, while the entry holds the object
  \<^verbatim>\<open>{ server, clients }\<close>: the entry stays in the active set, for a socket that is
  closed.
\<close>

theorem udp_error_keeps_entry:
  "activeServers (tcpOnError 0 stateA) = []
   \<and> activeServers stateC = [entryFor (JStr ''c'') routeC (Wrapper 0)]
   \<and> activeServers (udpOnError 0 stateC) = [entryFor (JStr ''c'') routeC (Wrapper 0)]
   \<and> sockets (udpOnError 0 stateC) = []
   \<and> logs (udpOnError 0 stateC) = logs stateC @ [(LError, ''UDP server error'')]"
  by (simp add: stateC_eval stateA_def state0_def tcpOnError_def udpOnError_def entryFor_def
      dgramClose_def isOpen_def dropSocket_def log_def Let_def)

end
